theory Spec2Isabelle
  imports Complex_Main "HOL-Library.Word"
begin

section \<open>The standalone confusion matrix metric\<close>

text \<open>
  A shallow embedding of class \<open>ConfusionMatrix\<close> of
  \<^verbatim>\<open>avalanche/evaluation/metrics/confusion_matrix.py\<close>: the methods \<open>__init__\<close>,
  \<open>update\<close>, \<open>result\<close>, \<open>reset\<close>, \<open>_normalize_cm\<close> and \<open>nan_to_num\<close>.
  The object is a record that every method takes and returns; every \<open>raise\<close>, and every
  failure of a library call the methods make, is a value of the type \<open>error\<close>.
\<close>

subsection \<open>Data\<close>

text \<open>
  The first seven errors are the \<open>ValueError\<close>s the class raises itself, in the order of
  the source. The others are raised by Python and torch under the calls of the class:
  \<open>len\<close> of a 0-dimensional tensor, \<open>torch.max\<close> and \<open>torch.min\<close> over no element,
  \<open>torch.zeros\<close> with a negative dimension, and an index outside a tensor.
\<close>

datatype error =
    SizeMismatch
  | LabelsTooManyDims
  | PredictionsTooManyDims
  | NegativeLabel
  | PredictedLabelTooLarge
  | TargetLabelTooLarge
  | NoPositiveLabel
  | InvalidNormalization
  | LenOfScalar
  | EmptyReduction
  | NegativeDimension
  | IndexOutOfRange

text \<open>
  The integral element types of torch. A tensor of direct labels has one of them, and
  the source indexes the table with 0-dimensional tensors of that type (line 166), which
  torch reads as an integer index for the signed types and as a mask for \<open>torch.uint8\<close>
  and \<open>torch.bool\<close>. (Labels of a floating-point type are not class indices and are
  not modelled.)
\<close>

datatype dtype = Bool | UInt8 | Int8 | Int16 | Int32 | Int64

definition is_mask :: "dtype \<Rightarrow> bool" where
  "is_mask d = (d = Bool \<or> d = UInt8)"

text \<open>The values an element of the type can hold; a \<open>torch.bool\<close> reads as 0 or 1.\<close>

fun in_range :: "dtype \<Rightarrow> int \<Rightarrow> bool" where
  "in_range Bool x = (0 \<le> x \<and> x \<le> 1)"
| "in_range UInt8 x = (0 \<le> x \<and> x < 2 ^ 8)"
| "in_range Int8 x = (- (2 ^ 7) \<le> x \<and> x < 2 ^ 7)"
| "in_range Int16 x = (- (2 ^ 15) \<le> x \<and> x < 2 ^ 15)"
| "in_range Int32 x = (- (2 ^ 31) \<le> x \<and> x < 2 ^ 31)"
| "in_range Int64 x = (- (2 ^ 63) \<le> x \<and> x < 2 ^ 63)"

text \<open>
  The tensors \<open>update\<close> receives, by number of dimensions, which is what the method
  dispatches on: \<open>T0\<close> a 0-dimensional tensor; \<open>T1 d xs\<close> the labels \<open>xs\<close>, of the element
  type \<open>d\<close>; \<open>T2 w rows\<close> a tensor of shape \<open>(length rows, w)\<close> of scores (the width is kept
  apart, since it is read even when there is no row); \<open>TN n\<close> a tensor of three or more
  dimensions whose first has size \<open>n\<close>. Scores are of any linearly ordered type
  (not-a-number scores are not modelled).
\<close>

datatype 'a tensor = T0 | T1 dtype "int list" | T2 nat "'a list list" | TN nat

text \<open>A tensor is rectangular, and its labels are values of its element type.\<close>

fun wf_tensor :: "'a tensor \<Rightarrow> bool" where
  "wf_tensor (T2 w rows) = list_all (\<lambda>r. length r = w) rows"
| "wf_tensor (T1 d xs) = list_all (in_range d) xs"
| "wf_tensor _ = True"

text \<open>
  Whether the labels derived from an input index as masks: the direct labels of type
  \<open>torch.uint8\<close> or \<open>torch.bool\<close>. The labels derived from scores are the indices
  \<open>torch.max\<close> returns, of type \<open>torch.long\<close>.
\<close>

fun mask_labels :: "'a tensor \<Rightarrow> bool" where
  "mask_labels (T1 d xs) = is_mask d"
| "mask_labels _ = False"

text \<open>\<open>len(y)\<close>: the size of the first dimension; a \<open>TypeError\<close> for a 0-dimensional tensor.\<close>

fun tensor_len :: "'a tensor \<Rightarrow> nat option" where
  "tensor_len T0 = None"
| "tensor_len (T1 d xs) = Some (length xs)"
| "tensor_len (T2 w rows) = Some (length rows)"
| "tensor_len (TN n) = Some n"

text \<open>\<open>len(y.shape)\<close>.\<close>

fun ndim :: "'a tensor \<Rightarrow> nat" where
  "ndim T0 = 0"
| "ndim (T1 d xs) = 1"
| "ndim (T2 w rows) = 2"
| "ndim (TN n) = 3"

text \<open>
  The object: \<open>_cm_tensor\<close> (a tensor of \<open>torch.long\<close>, as the list of its rows, or
  \<open>None\<close>), \<open>_num_classes\<close> and \<open>normalize\<close>. An element of \<open>torch.long\<close> is a signed
  integer of 64 bits: \<open>+\<close> wraps, and \<open>sint\<close> reads the value.
\<close>

type_synonym int64 = "64 word"

record state =
  cm_tensor :: "int64 list list option"
  num_classes :: "int option"
  normalize_mode :: "string option"

definition init :: "int option \<Rightarrow> string option \<Rightarrow> state" where
  "init n m = \<lparr>cm_tensor = None, num_classes = n, normalize_mode = m\<rparr>"

definition reset :: "state \<Rightarrow> state" where
  "reset s = s\<lparr>cm_tensor := None\<rparr>"

subsection \<open>Library operations used by \<open>update\<close>\<close>

text \<open>
  \<open>xs[:k]\<close>: the first \<open>k\<close> elements, and for a negative \<open>k\<close> all but the last \<open>-k\<close>.
\<close>

definition py_slice_to :: "int \<Rightarrow> 'b list \<Rightarrow> 'b list" where
  "py_slice_to k xs = (if 0 \<le> k then take (nat k) xs else take (length xs - nat (- k)) xs)"

definition slice_len :: "int \<Rightarrow> nat \<Rightarrow> nat" where
  "slice_len k w = (if 0 \<le> k then min (nat k) w else w - nat (- k))"

text \<open>
  \<open>torch.max(y, 1)[1]\<close> on one row: the index of the maximum, the first one where
  several entries are maximal. \<open>argmax_from b bi i xs\<close> scans \<open>xs\<close>, whose first element
  has index \<open>i\<close>, with the best value \<open>b\<close> so far, found at \<open>bi\<close>.
\<close>

fun argmax_from :: "'a::linorder \<Rightarrow> nat \<Rightarrow> nat \<Rightarrow> 'a list \<Rightarrow> nat" where
  "argmax_from b bi i [] = bi"
| "argmax_from b bi i (x # xs) =
     (if b < x then argmax_from x i (Suc i) xs else argmax_from b bi (Suc i) xs)"

fun argmax :: "'a::linorder list \<Rightarrow> nat" where
  "argmax [] = 0"
| "argmax (x # xs) = argmax_from x 0 1 xs"

text \<open>\<open>torch.zeros((r, c), dtype=torch.long)\<close> for \<open>r\<close> and \<open>c\<close> not negative.\<close>

definition zeros :: "nat \<Rightarrow> nat \<Rightarrow> int64 list list" where
  "zeros r c = replicate r (replicate c 0)"

text \<open>\<open>cm.shape[1]\<close> of a table given by its rows.\<close>

definition ncols :: "int64 list list \<Rightarrow> nat" where
  "ncols cm = (case cm of [] \<Rightarrow> 0 | r # _ \<Rightarrow> length r)"

text \<open>\<open>pad(cm, (0, d, 0, d))\<close>: \<open>d\<close> zero columns on the right, \<open>d\<close> zero rows below.\<close>

definition pad :: "int64 list list \<Rightarrow> nat \<Rightarrow> int64 list list" where
  "pad cm d = map (\<lambda>r. r @ replicate d 0) cm @ replicate d (replicate (ncols cm + d) 0)"

text \<open>
  The position an index \<open>i\<close> reads in a dimension of size \<open>n\<close>: negative indices count
  from the end, and an index outside \<open>[-n, n)\<close> raises.
\<close>

definition py_index :: "nat \<Rightarrow> int \<Rightarrow> nat option" where
  "py_index n i =
     (if 0 \<le> i \<and> i < int n then Some (nat i)
      else if - int n \<le> i \<and> i < 0 then Some (nat (i + int n))
      else None)"

subsection \<open>\<open>update\<close>\<close>

text \<open>
  \<^verbatim>\<open>
  max_label = -1 if self._num_classes is None else self._num_classes - 1
  \<close>
\<close>

definition initial_max_label :: "int option \<Rightarrow> int" where
  "initial_max_label nc = (case nc of None \<Rightarrow> - 1 | Some n \<Rightarrow> n - 1)"

text \<open>
  \<^verbatim>\<open>
  if len(y.shape) == 2 and self._num_classes is not None:
      y = y[:, :max_label]
  \<close>
\<close>

fun select_valid :: "int option \<Rightarrow> int \<Rightarrow> 'a tensor \<Rightarrow> 'a tensor" where
  "select_valid (Some n) ml (T2 w rows) = T2 (slice_len ml w) (map (py_slice_to ml) rows)"
| "select_valid nc ml y = y"

text \<open>
  The block the source runs first on \<open>predicted_y\<close> and then on \<open>true_y\<close>, which differ in
  the error \<open>too_large\<close> only:
  \<^verbatim>\<open>
  if len(y.shape) > 1:
      if self._num_classes is None:
          max_label = max(max_label, y.shape[1]-1)
      y = torch.max(y, 1)[1]
  else:
      min_label = torch.min(y).item()
      if min_label < 0:
          raise ValueError('Label values must be non-negative values')
      if self._num_classes is None:
          max_label = max(max_label, torch.max(y).item())
      elif torch.max(y).item() >= self._num_classes:
          raise ValueError(...)
  \<close>
  It returns the new \<open>max_label\<close> and the labels. \<open>T0\<close> and \<open>TN\<close> do not reach it.
\<close>

fun to_labels :: "error \<Rightarrow> int option \<Rightarrow> int \<Rightarrow> 'a::linorder tensor \<Rightarrow> error + (int \<times> int list)" where
  "to_labels too_large nc ml (T2 w rows) =
     (if w = 0 then Inl EmptyReduction
      else Inr (if nc = None then max ml (int w - 1) else ml, map (\<lambda>r. int (argmax r)) rows))"
| "to_labels too_large nc ml (T1 d xs) =
     (if xs = [] then Inl EmptyReduction
      else if Min (set xs) < 0 then Inl NegativeLabel
      else (case nc of
              None \<Rightarrow> Inr (max ml (Max (set xs)), xs)
            | Some n \<Rightarrow> if Max (set xs) \<ge> n then Inl too_large else Inr (ml, xs)))"
| "to_labels too_large nc ml T0 = Inl LenOfScalar"
| "to_labels too_large nc ml (TN n) = Inl PredictionsTooManyDims"

text \<open>
  Lines 97 to 153 of the source, everything before the table is touched: the checks, and
  the final \<open>max_label\<close> with the labels of \<open>true_y\<close> and of \<open>predicted_y\<close>.
\<close>

definition validate ::
  "state \<Rightarrow> 'a::linorder tensor \<Rightarrow> 'a tensor \<Rightarrow> error + (int \<times> int list \<times> int list)" where
  "validate s true_y predicted_y =
     (case tensor_len true_y of None \<Rightarrow> Inl LenOfScalar | Some lt \<Rightarrow>
     (case tensor_len predicted_y of None \<Rightarrow> Inl LenOfScalar | Some lp \<Rightarrow>
        if lt \<noteq> lp then Inl SizeMismatch
        else if ndim true_y > 2 then Inl LabelsTooManyDims
        else if ndim predicted_y > 2 then Inl PredictionsTooManyDims
        else
          let nc = num_classes s;
              ml0 = initial_max_label nc;
              ty = select_valid nc ml0 true_y;
              py = select_valid nc ml0 predicted_y
          in (case to_labels PredictedLabelTooLarge nc ml0 py of Inl e \<Rightarrow> Inl e | Inr (ml1, ps) \<Rightarrow>
             (case to_labels TargetLabelTooLarge nc ml1 ty of Inl e \<Rightarrow> Inl e | Inr (ml2, ts) \<Rightarrow>
                if ml2 < 0 then Inl NoPositiveLabel else Inr (ml2, ts, ps)))))"

text \<open>
  \<^verbatim>\<open>
  if self._cm_tensor is None:
      self._cm_tensor = torch.zeros((max_label+1, max_label+1), dtype=torch.long)
  elif max_label >= self._cm_tensor.shape[0]:
      size_diff = 1 + max_label - self._cm_tensor.shape[0]
      self._cm_tensor = pad(self._cm_tensor, (0, size_diff, 0, size_diff))
  \<close>
\<close>

definition allocate :: "int64 list list option \<Rightarrow> int \<Rightarrow> int64 list list" where
  "allocate t max_label =
     (case t of
        None \<Rightarrow> zeros (nat (max_label + 1)) (nat (max_label + 1))
      | Some cm \<Rightarrow>
          if max_label \<ge> int (length cm) then pad cm (nat (1 + max_label - int (length cm)))
          else cm)"

text \<open>
  \<^verbatim>\<open>
  for pattern_idx in range(len(true_y)):
      self._cm_tensor[true_y[pattern_idx]][predicted_y[pattern_idx]] += 1
  \<close>
  One pass of the body, for the true label \<open>t\<close> and the predicted label \<open>p\<close>; \<open>mt\<close> and
  \<open>mp\<close> say whether they index as masks. \<open>None\<close> is the \<open>IndexError\<close> of torch.
  \<^item> \<open>cm[t]\<close> with an integer \<open>t\<close> is a view of the row \<open>t\<close>; \<open>row[p] += 1\<close> with an integer
    \<open>p\<close> adds 1 to one cell.
  \<^item> \<open>row[p]\<close> with a mask \<open>p\<close> selects the whole row when \<open>p\<close> is not 0 and nothing when it
    is, so \<open>row[p] += 1\<close> adds 1 to every cell of the row, or to none.
  \<^item> \<open>cm[t]\<close> with a mask \<open>t\<close> is a copy, of shape \<open>(1, K, K)\<close> when \<open>t\<close> is not 0 and
    \<open>(0, K, K)\<close> when it is: what is added to it is lost, and an integer \<open>p\<close> indexes its
    first dimension, of size 1 or 0.
\<close>

fun count_step ::
  "bool \<Rightarrow> bool \<Rightarrow> int64 list list \<Rightarrow> int \<Rightarrow> int \<Rightarrow> int64 list list option" where
  "count_step False False cm t p =
     (case py_index (length cm) t of None \<Rightarrow> None | Some i \<Rightarrow>
     (case py_index (length (cm ! i)) p of None \<Rightarrow> None | Some j \<Rightarrow>
        Some (cm[i := (cm ! i)[j := cm ! i ! j + 1]])))"
| "count_step False True cm t p =
     (case py_index (length cm) t of None \<Rightarrow> None | Some i \<Rightarrow>
        Some (if p \<noteq> 0 then cm[i := map (\<lambda>c. c + 1) (cm ! i)] else cm))"
| "count_step True False cm t p =
     (case py_index (if t \<noteq> 0 then 1 else 0) p of None \<Rightarrow> None | Some j \<Rightarrow> Some cm)"
| "count_step True True cm t p = Some cm"

text \<open>
  The table is changed in place, so an index out of range leaves the increments made
  before it: the loop returns the table it reached together with the error.
\<close>

fun count_loop ::
  "bool \<Rightarrow> bool \<Rightarrow> int64 list list \<Rightarrow> int list \<Rightarrow> int list \<Rightarrow> int64 list list \<times> error option" where
  "count_loop mt mp cm [] ps = (cm, None)"
| "count_loop mt mp cm (t # ts) [] = (cm, Some IndexOutOfRange)"
| "count_loop mt mp cm (t # ts) (p # ps) =
     (case count_step mt mp cm t p of
        None \<Rightarrow> (cm, Some IndexOutOfRange)
      | Some cm' \<Rightarrow> count_loop mt mp cm' ts ps)"

definition update :: "state \<Rightarrow> 'a::linorder tensor \<Rightarrow> 'a tensor \<Rightarrow> state \<times> (error + unit)" where
  "update s true_y predicted_y =
     (case validate s true_y predicted_y of
        Inl e \<Rightarrow> (s, Inl e)
      | Inr (max_label, ts, ps) \<Rightarrow>
          (case count_loop (mask_labels true_y) (mask_labels predicted_y)
                  (allocate (cm_tensor s) max_label) ts ps of
             (cm, r) \<Rightarrow> (s\<lparr>cm_tensor := Some cm\<rparr>, case r of None \<Rightarrow> Inr () | Some e \<Rightarrow> Inl e)))"

subsection \<open>\<open>result\<close>\<close>

text \<open>
  What \<open>result\<close> returns: the table of counts itself (\<open>torch.long\<close>) or a table of
  \<open>torch.float64\<close>. The arithmetic of \<open>float64\<close> is not part of the source; the three
  operations \<open>_normalize_cm\<close> and \<open>nan_to_num\<close> use are taken as parameters:
  \<open>sum_f64 xs\<close> is the sum of the counts \<open>xs\<close> with \<open>dtype=torch.float64\<close>, \<open>div_f64 c d\<close>
  the division of the count \<open>c\<close> by the \<open>float64\<close> \<open>d\<close>, and \<open>nan_to_num_f64\<close> what
  \<open>np.nan_to_num\<close> does to one entry.
\<close>

datatype 'f out_tensor = LongTensor "int64 list list" | DoubleTensor "'f list list"

record 'f f64_ops =
  sum_f64 :: "int64 list \<Rightarrow> 'f"
  div_f64 :: "int64 \<Rightarrow> 'f \<Rightarrow> 'f"
  nan_to_num_f64 :: "'f \<Rightarrow> 'f"

definition nan_to_num :: "'f f64_ops \<Rightarrow> 'f list list \<Rightarrow> 'f list list" where
  "nan_to_num ops matrix = map (map (nan_to_num_f64 ops)) matrix"

text \<open>
  \<^verbatim>\<open>
  if normalization not in ('true', 'pred', 'all'):
      raise ValueError(...)
  if normalization == 'true':
      cm = cm / cm.sum(dim=1, keepdim=True, dtype=torch.float64)
  elif normalization == 'pred':
      cm = cm / cm.sum(dim=0, keepdim=True, dtype=torch.float64)
  elif normalization == 'all':
      cm = cm / cm.sum(dtype=torch.float64)
  cm = ConfusionMatrix.nan_to_num(cm)
  \<close>
\<close>

definition normalize_cm :: "'f f64_ops \<Rightarrow> int64 list list \<Rightarrow> string \<Rightarrow> error + 'f list list" where
  "normalize_cm ops cm normalization =
     (if normalization \<notin> set [''true'', ''pred'', ''all''] then Inl InvalidNormalization
      else Inr (nan_to_num ops
        (if normalization = ''true'' then
           map (\<lambda>r. map (\<lambda>c. div_f64 ops c (sum_f64 ops r)) r) cm
         else if normalization = ''pred'' then
           (let col_sums = map (sum_f64 ops) (transpose cm)
            in map (\<lambda>r. map (\<lambda>(c, d). div_f64 ops c d) (zip r col_sums)) cm)
         else
           (let total = sum_f64 ops (concat cm)
            in map (map (\<lambda>c. div_f64 ops c total)) cm))))"

text \<open>
  \<^verbatim>\<open>
  if self._cm_tensor is None:
      matrix_shape = (0, 0)
      if self._num_classes is not None:
          matrix_shape = (self._num_classes, self._num_classes)
      return torch.zeros(matrix_shape, dtype=torch.long)
  if self.normalize is not None:
      return ConfusionMatrix._normalize_cm(self._cm_tensor, self.normalize)
  return self._cm_tensor
  \<close>
  The method returns the object as it leaves it, next to its value.
\<close>

definition result :: "'f f64_ops \<Rightarrow> state \<Rightarrow> state \<times> (error + 'f out_tensor)" where
  "result ops s =
     (case cm_tensor s of
        None \<Rightarrow>
          (case num_classes s of
             None \<Rightarrow> (s, Inr (LongTensor (zeros 0 0)))
           | Some n \<Rightarrow>
               if n < 0 then (s, Inl NegativeDimension)
               else (s, Inr (LongTensor (zeros (nat n) (nat n)))))
      | Some cm \<Rightarrow>
          (case normalize_mode s of
             Some m \<Rightarrow>
               (case normalize_cm ops cm m of
                  Inl e \<Rightarrow> (s, Inl e)
                | Inr d \<Rightarrow> (s, Inr (DoubleTensor d)))
           | None \<Rightarrow> (s, Inr (LongTensor cm))))"

subsection \<open>The \<open>float64\<close> operations\<close>

text \<open>
  A \<open>float64\<close> is a rational number it represents or one of the special values of
  IEEE 754 (the sign of zero is not modelled). The operations are those of IEEE 754 over
  a rounding \<open>conv\<close> of a real number to a \<open>float64\<close>: a count is converted, and the
  quotient of two finite values is the rounded exact quotient. The sum with
  \<open>dtype=torch.float64\<close> is the rounded exact sum, which is what torch computes, in any
  order of the additions, while the sums stay below \<open>2 ^ 53\<close>.
\<close>

datatype f64 = Finite rat | NaN | PosInf | NegInf

fun f64_div :: "(rat \<Rightarrow> f64) \<Rightarrow> f64 \<Rightarrow> f64 \<Rightarrow> f64" where
  "f64_div conv NaN d = NaN"
| "f64_div conv c NaN = NaN"
| "f64_div conv (Finite a) (Finite b) =
     (if b = 0 then (if a = 0 then NaN else if 0 < a then PosInf else NegInf)
      else conv (a / b))"
| "f64_div conv (Finite a) d = Finite 0"
| "f64_div conv PosInf (Finite b) = (if 0 \<le> b then PosInf else NegInf)"
| "f64_div conv NegInf (Finite b) = (if 0 \<le> b then NegInf else PosInf)"
| "f64_div conv c d = NaN"

definition max_f64 :: rat where
  "max_f64 = (2 ^ 53 - 1) * 2 ^ 971"

text \<open>\<open>np.nan_to_num\<close> on one entry.\<close>

definition f64_nan_to_num :: "f64 \<Rightarrow> f64" where
  "f64_nan_to_num x =
     (case x of
        Finite q \<Rightarrow> Finite q
      | NaN \<Rightarrow> Finite 0
      | PosInf \<Rightarrow> Finite max_f64
      | NegInf \<Rightarrow> Finite (- max_f64))"

definition ops_of :: "(rat \<Rightarrow> f64) \<Rightarrow> f64 f64_ops" where
  "ops_of conv =
     \<lparr>sum_f64 = (\<lambda>xs. conv (of_int (sum_list (map sint xs)))),
      div_f64 = (\<lambda>c d. f64_div conv (conv (of_int (sint c))) d),
      nan_to_num_f64 = f64_nan_to_num\<rparr>"

text \<open>The operations without rounding: every real number is taken as representable.\<close>

definition exact_ops :: "f64 f64_ops" where
  "exact_ops = ops_of Finite"

text \<open>
  The rounding of IEEE 754 for \<open>float64\<close>, to the nearest representable number and to
  the even one of two nearest. \<open>round_even\<close> rounds to an integer. A positive \<open>q\<close> below 1
  is doubled \<open>scale_up 1022 q\<close> times to reach \<open>[1, 2)\<close> (1022 times at most: below
  that the numbers are subnormal and the spacing stays \<open>2 ^ - 1074\<close>), a \<open>q\<close> from 1 on
  is halved \<open>scale_down 1024 q\<close> times; the spacing of the representable numbers around
  \<open>q\<close> is 52 binary places below. What rounds to \<open>2 ^ 1024\<close> or more is infinite.
\<close>

definition round_even :: "rat \<Rightarrow> int" where
  "round_even x =
     (let f = \<lfloor>x\<rfloor>; d = x - of_int f
      in if d < 1 / 2 then f else if 1 / 2 < d then f + 1 else if even f then f else f + 1)"

fun scale_up :: "nat \<Rightarrow> rat \<Rightarrow> nat" where
  "scale_up 0 q = 0"
| "scale_up (Suc n) q = (if q < 1 then Suc (scale_up n (2 * q)) else 0)"

fun scale_down :: "nat \<Rightarrow> rat \<Rightarrow> nat" where
  "scale_down 0 q = 0"
| "scale_down (Suc n) q = (if 2 \<le> q then Suc (scale_down n (q / 2)) else 0)"

definition round64_pos :: "rat \<Rightarrow> rat" where
  "round64_pos q =
     (if q < 1 then
        (let k = 52 + scale_up 1022 q in of_int (round_even (q * 2 ^ k)) / 2 ^ k)
      else
        (let j = scale_down 1024 q
         in if j \<le> 52 then of_int (round_even (q * 2 ^ (52 - j))) / 2 ^ (52 - j)
            else of_int (round_even (q / 2 ^ (j - 52))) * 2 ^ (j - 52)))"

definition f64_of_rat :: "rat \<Rightarrow> f64" where
  "f64_of_rat q =
     (if q = 0 then Finite 0
      else (let r = round64_pos \<bar>q\<bar>
            in if 2 ^ 1024 \<le> r then (if 0 < q then PosInf else NegInf)
               else Finite (if 0 < q then r else - r)))"

text \<open>The operations of \<open>float64\<close>.\<close>

definition ieee_ops :: "f64 f64_ops" where
  "ieee_ops = ops_of f64_of_rat"

subsection \<open>Notions the properties are stated with\<close>

text \<open>The number a finite \<open>float64\<close> represents.\<close>

fun f64_val :: "f64 \<Rightarrow> rat" where
  "f64_val (Finite q) = q"
| "f64_val x = 0"

text \<open>The sum of a row of counts, as integers.\<close>

definition row_sum :: "int64 list \<Rightarrow> int" where
  "row_sum r = sum_list (map sint r)"

text \<open>
  The entry \<open>result\<close> returns for the count \<open>c\<close> of the row \<open>r\<close> under the mode \<open>'true'\<close>,
  with the operations \<open>ops_of conv\<close>.
\<close>

definition entry :: "(rat \<Rightarrow> f64) \<Rightarrow> int64 list \<Rightarrow> int64 \<Rightarrow> f64" where
  "entry conv r c =
     f64_nan_to_num (f64_div conv (conv (of_int (sint c))) (conv (of_int (row_sum r))))"

text \<open>A table is square when each of its rows is as long as the table has rows.\<close>

definition square :: "int64 list list \<Rightarrow> bool" where
  "square cm = list_all (\<lambda>r. length r = length cm) cm"

text \<open>The invariant of the object: the table, once there, is square.\<close>

definition wf_state :: "state \<Rightarrow> bool" where
  "wf_state s = (case cm_tensor s of None \<Rightarrow> True | Some cm \<Rightarrow> square cm)"

text \<open>The dimension of the table of an object, and the count at a coordinate;
  an object without a table, and a coordinate outside the table, count nothing.\<close>

definition dim :: "state \<Rightarrow> nat" where
  "dim s = (case cm_tensor s of None \<Rightarrow> 0 | Some cm \<Rightarrow> length cm)"

definition cell :: "state \<Rightarrow> nat \<Rightarrow> nat \<Rightarrow> int64" where
  "cell s i j =
     (case cm_tensor s of
        None \<Rightarrow> 0
      | Some cm \<Rightarrow> if i < length cm \<and> j < length (cm ! i) then cm ! i ! j else 0)"

text \<open>The sum of all cells, in the arithmetic of \<open>torch.long\<close>.\<close>

definition table_sum :: "int64 list list \<Rightarrow> int64" where
  "table_sum cm = sum_list (map sum_list cm)"

definition cells_sum :: "state \<Rightarrow> int64" where
  "cells_sum s = (case cm_tensor s of None \<Rightarrow> 0 | Some cm \<Rightarrow> table_sum cm)"

text \<open>
  Whether a sample with the true label \<open>t\<close> and the predicted label \<open>p\<close> adds 1 to the
  cell \<open>(i, j)\<close>: with integer indices, when \<open>t\<close> is \<open>i\<close> and \<open>p\<close> is \<open>j\<close>; with a mask \<open>p\<close>,
  when \<open>t\<close> is \<open>i\<close> and \<open>p\<close> is not 0, whatever \<open>j\<close>; with a mask \<open>t\<close>, never. And how many
  samples of a batch do.
\<close>

definition hits :: "bool \<Rightarrow> bool \<Rightarrow> int \<Rightarrow> int \<Rightarrow> nat \<Rightarrow> nat \<Rightarrow> bool" where
  "hits mt mp t p i j = (\<not> mt \<and> t = int i \<and> (if mp then p \<noteq> 0 else p = int j))"

definition batch_count :: "bool \<Rightarrow> bool \<Rightarrow> int list \<Rightarrow> int list \<Rightarrow> nat \<Rightarrow> nat \<Rightarrow> nat" where
  "batch_count mt mp ts ps i j =
     length (filter (\<lambda>(t, p). hits mt mp t p i j) (zip ts ps))"

text \<open>
  The check that fails first when \<open>update\<close> is given two tensors of direct labels, not
  empty and of one length, with a label out of range among them: the order of the checks
  of the source, which reads \<open>predicted_y\<close> before \<open>true_y\<close>, and in each the minimum
  before the maximum.
\<close>

definition direct_error :: "int option \<Rightarrow> int list \<Rightarrow> int list \<Rightarrow> error" where
  "direct_error nc ts ps =
     (if list_ex (\<lambda>y. y < 0) ps then NegativeLabel
      else if (case nc of None \<Rightarrow> False | Some n \<Rightarrow> list_ex (\<lambda>y. n \<le> y) ps)
        then PredictedLabelTooLarge
      else if list_ex (\<lambda>y. y < 0) ts then NegativeLabel
      else TargetLabelTooLarge)"

section \<open>Properties\<close>

subsection \<open>Arg-max, slices and the labels \<open>update\<close> derives\<close>

lemma argmax_from_less: "bi < i \<Longrightarrow> argmax_from b bi i xs < i + length xs"
proof (induction xs arbitrary: b bi i)
  case Nil
  then show ?case by simp
next
  case (Cons x xs)
  have a: "argmax_from x i (Suc i) xs < Suc i + length xs"
    by (rule Cons.IH) simp
  have b: "argmax_from b bi (Suc i) xs < Suc i + length xs"
    by (rule Cons.IH) (use Cons.prems in simp)
  show ?case using a b by simp
qed

lemma argmax_less: "xs \<noteq> [] \<Longrightarrow> argmax xs < length xs"
  using argmax_from_less[of 0 1] by (cases xs) auto

lemma length_py_slice_to: "length (py_slice_to k xs) = slice_len k (length xs)"
  by (auto simp: py_slice_to_def slice_len_def)

lemma wf_select_valid: "wf_tensor y \<Longrightarrow> wf_tensor (select_valid nc ml y)"
  by (cases "(nc, ml, y)" rule: select_valid.cases) (auto simp: list_all_iff length_py_slice_to)

lemma py_index_in_range: "0 \<le> i \<Longrightarrow> i < int n \<Longrightarrow> py_index n i = Some (nat i)"
  by (simp add: py_index_def)

lemma py_index_Some: "py_index n i = Some k \<Longrightarrow> k < n"
  by (auto simp: py_index_def split: if_splits)


lemma to_labels_T1:
  assumes "to_labels e nc ml (T1 d xs) = Inr (ml', ls)"
  shows "ls = xs \<and> xs \<noteq> [] \<and> (\<forall>x\<in>set xs. 0 \<le> x) \<and> ml \<le> ml'
    \<and> (case nc of None \<Rightarrow> (\<forall>x\<in>set xs. x \<le> ml')
        | Some n \<Rightarrow> ml' = ml \<and> (\<forall>x\<in>set xs. x < n))"
proof -
  from assms have ne: "xs \<noteq> []" and mn: "\<not> Min (set xs) < 0"
    by (auto split: if_splits)
  have nonneg: "\<forall>x\<in>set xs. 0 \<le> x"
  proof
    fix x assume "x \<in> set xs"
    then have "Min (set xs) \<le> x" by simp
    with mn show "0 \<le> x" by simp
  qed
  show ?thesis
  proof (cases nc)
    case None
    with assms ne mn have "ml' = max ml (Max (set xs))" and "ls = xs" by auto
    moreover have "\<forall>x\<in>set xs. x \<le> max ml (Max (set xs))"
      by (simp add: max.coboundedI2)
    ultimately show ?thesis using None ne nonneg by simp
  next
    case (Some n)
    with assms ne mn have mx: "\<not> n \<le> Max (set xs)" and "ml' = ml" and "ls = xs"
      by (auto split: if_splits)
    moreover have "\<forall>x\<in>set xs. x < n"
    proof
      fix x assume "x \<in> set xs"
      then have "x \<le> Max (set xs)" by simp
      with mx show "x < n" by simp
    qed
    ultimately show ?thesis using Some ne nonneg by simp
  qed
qed

lemma to_labels_T2:
  assumes "to_labels e nc ml (T2 w rows) = Inr (ml', ls)" and "list_all (\<lambda>r. length r = w) rows"
  shows "length ls = length rows \<and> 0 < w \<and> (\<forall>x\<in>set ls. 0 \<le> x \<and> x < int w) \<and> ml \<le> ml'
    \<and> (case nc of None \<Rightarrow> ml' = max ml (int w - 1) | Some n \<Rightarrow> ml' = ml)"
proof -
  from assms(1) have w: "0 < w" and ls: "ls = map (\<lambda>r. int (argmax r)) rows"
    and ml': "ml' = (if nc = None then max ml (int w - 1) else ml)"
    by (auto split: if_splits)
  have "\<forall>x\<in>set ls. 0 \<le> x \<and> x < int w"
  proof
    fix x assume "x \<in> set ls"
    then obtain r where r: "r \<in> set rows" and x: "x = int (argmax r)" using ls by auto
    from r assms(2) have "length r = w" by (simp add: list_all_iff)
    with w have "argmax r < w" using argmax_less[of r] by auto
    with x show "0 \<le> x \<and> x < int w" by simp
  qed
  then show ?thesis using w ls ml' by (auto split: option.splits)
qed


lemma labels_bound:
  assumes "to_labels e nc ml (select_valid nc ml0 y) = Inr (ml', ls)" and "wf_tensor y"
    and "ml0 = initial_max_label nc"
  shows "tensor_len y = Some (length ls)" and "ml \<le> ml'" and "\<forall>x\<in>set ls. 0 \<le> x"
    and "nc = None \<Longrightarrow> \<forall>x\<in>set ls. x \<le> ml'"
    and "nc = Some n \<Longrightarrow> ml' = ml"
    and "nc = Some n \<Longrightarrow> 0 < n \<Longrightarrow> \<forall>x\<in>set ls. x < n"
proof -
  have "tensor_len y = Some (length ls) \<and> ml \<le> ml' \<and> (\<forall>x\<in>set ls. 0 \<le> x)
    \<and> (nc = None \<longrightarrow> (\<forall>x\<in>set ls. x \<le> ml'))
    \<and> (nc = Some n \<longrightarrow> ml' = ml)
    \<and> (nc = Some n \<longrightarrow> 0 < n \<longrightarrow> (\<forall>x\<in>set ls. x < n))"
  proof (cases y)
    case T0
    with assms show ?thesis by (cases nc) auto
  next
    case (TN k)
    with assms show ?thesis by (cases nc) auto
  next
    case (T1 d xs)
    then have "to_labels e nc ml (T1 d xs) = Inr (ml', ls)" using assms(1) by (cases nc) auto
    from to_labels_T1[OF this] show ?thesis using T1 by (auto split: option.splits)
  next
    case (T2 w rows)
    show ?thesis
    proof (cases nc)
      case None
      then have "to_labels e nc ml (T2 w rows) = Inr (ml', ls)" using assms(1) T2 by simp
      from to_labels_T2[OF this] assms(2) T2 None show ?thesis by auto
    next
      case (Some k)
      let ?w = "slice_len ml0 w" and ?rows = "map (py_slice_to ml0) rows"
      have tl: "to_labels e nc ml (T2 ?w ?rows) = Inr (ml', ls)" using assms(1) T2 Some by simp
      have wf: "list_all (\<lambda>r. length r = ?w) ?rows"
        using assms(2) T2 by (auto simp: list_all_iff length_py_slice_to)
      note r = to_labels_T2[OF tl wf]
      have "0 < k \<Longrightarrow> int ?w \<le> k - 1"
        using assms(3) Some by (simp add: initial_max_label_def slice_len_def)
      with r Some T2 show ?thesis by fastforce
    qed
  qed
  then show "tensor_len y = Some (length ls)" and "ml \<le> ml'" and "\<forall>x\<in>set ls. 0 \<le> x"
    and "nc = None \<Longrightarrow> \<forall>x\<in>set ls. x \<le> ml'"
    and "nc = Some n \<Longrightarrow> ml' = ml"
    and "nc = Some n \<Longrightarrow> 0 < n \<Longrightarrow> \<forall>x\<in>set ls. x < n"
    by blast+
qed

lemma validate_Inr:
  assumes "validate s ty py = Inr (ml, ts, ps)"
  obtains ml1 where "tensor_len ty = tensor_len py"
    and "to_labels PredictedLabelTooLarge (num_classes s) (initial_max_label (num_classes s))
           (select_valid (num_classes s) (initial_max_label (num_classes s)) py) = Inr (ml1, ps)"
    and "to_labels TargetLabelTooLarge (num_classes s) ml1
           (select_valid (num_classes s) (initial_max_label (num_classes s)) ty) = Inr (ml, ts)"
    and "0 \<le> ml"
  using assms unfolding validate_def Let_def
  by (auto split: option.splits if_splits sum.splits)

lemma validate_bounds:
  assumes "validate s ty py = Inr (ml, ts, ps)" and "wf_tensor ty" and "wf_tensor py"
  shows "0 \<le> ml" and "\<forall>t\<in>set ts. 0 \<le> t \<and> t \<le> ml" and "\<forall>p\<in>set ps. 0 \<le> p \<and> p \<le> ml"
    and "length ts = length ps" and "tensor_len ty = Some (length ts)"
proof -
  let ?nc = "num_classes s"
  from assms(1) obtain ml1 where len: "tensor_len ty = tensor_len py"
    and p: "to_labels PredictedLabelTooLarge ?nc (initial_max_label ?nc)
           (select_valid ?nc (initial_max_label ?nc) py) = Inr (ml1, ps)"
    and t: "to_labels TargetLabelTooLarge ?nc ml1
           (select_valid ?nc (initial_max_label ?nc) ty) = Inr (ml, ts)"
    and ml: "0 \<le> ml"
    by (rule validate_Inr)
  note P = labels_bound[OF p assms(3) refl]
  note T = labels_bound[OF t assms(2) refl]
  show "0 \<le> ml" by (rule ml)
  show "tensor_len ty = Some (length ts)" by (rule T(1))
  show "length ts = length ps" using T(1) P(1) len by simp
  show "\<forall>t\<in>set ts. 0 \<le> t \<and> t \<le> ml"
  proof (cases ?nc)
    case None
    then show ?thesis using T(3) T(4) by blast
  next
    case (Some n)
    then have "ml = n - 1" using T(5) P(5) by (simp add: initial_max_label_def)
    with ml Some show ?thesis using T(3) T(6)[of n] by fastforce
  qed
  show "\<forall>p\<in>set ps. 0 \<le> p \<and> p \<le> ml"
  proof (cases ?nc)
    case None
    then show ?thesis using P(3) P(4) T(2) by fastforce
  next
    case (Some n)
    then have "ml = n - 1" using T(5) P(5) by (simp add: initial_max_label_def)
    with ml Some show ?thesis using P(3) P(6)[of n] by fastforce
  qed
qed

text \<open>The arg-max is the position of a maximum, and the first such position.\<close>

lemma argmax_from_spec:
  "argmax_from b bi i xs = bi \<and> (\<forall>x\<in>set xs. x \<le> b)
   \<or> (\<exists>k<length xs. argmax_from b bi i xs = i + k \<and> b < xs ! k
        \<and> (\<forall>x\<in>set xs. x \<le> xs ! k) \<and> (\<forall>l<k. xs ! l < xs ! k))"
proof (induction xs arbitrary: b bi i)
  case Nil
  then show ?case by simp
next
  case (Cons x xs)
  show ?case
  proof (cases "b < x")
    case True
    from Cons.IH[of x i "Suc i"] show ?thesis
    proof
      assume h: "argmax_from x i (Suc i) xs = i \<and> (\<forall>y\<in>set xs. y \<le> x)"
      have "\<exists>k<length (x # xs). argmax_from b bi i (x # xs) = i + k \<and> b < (x # xs) ! k
        \<and> (\<forall>y\<in>set (x # xs). y \<le> (x # xs) ! k) \<and> (\<forall>l<k. (x # xs) ! l < (x # xs) ! k)"
        by (rule exI[of _ 0]) (use True h in simp)
      then show ?thesis ..
    next
      assume "\<exists>k<length xs. argmax_from x i (Suc i) xs = Suc i + k \<and> x < xs ! k
        \<and> (\<forall>y\<in>set xs. y \<le> xs ! k) \<and> (\<forall>l<k. xs ! l < xs ! k)"
      then obtain k where k: "k < length xs" "argmax_from x i (Suc i) xs = Suc i + k"
        "x < xs ! k" "\<forall>y\<in>set xs. y \<le> xs ! k" "\<forall>l<k. xs ! l < xs ! k" by blast
      have "\<exists>k<length (x # xs). argmax_from b bi i (x # xs) = i + k \<and> b < (x # xs) ! k
        \<and> (\<forall>y\<in>set (x # xs). y \<le> (x # xs) ! k) \<and> (\<forall>l<k. (x # xs) ! l < (x # xs) ! k)"
      proof (rule exI[of _ "Suc k"], intro conjI)
        show "\<forall>l<Suc k. (x # xs) ! l < (x # xs) ! Suc k"
        proof (intro allI impI)
          fix l assume "l < Suc k"
          then show "(x # xs) ! l < (x # xs) ! Suc k"
            using k(3,5) by (cases l) auto
        qed
      qed (use True k in auto)
      then show ?thesis ..
    qed
  next
    case False
    from Cons.IH[of b bi "Suc i"] show ?thesis
    proof
      assume "argmax_from b bi (Suc i) xs = bi \<and> (\<forall>y\<in>set xs. y \<le> b)"
      with False show ?thesis by auto
    next
      assume "\<exists>k<length xs. argmax_from b bi (Suc i) xs = Suc i + k \<and> b < xs ! k
        \<and> (\<forall>y\<in>set xs. y \<le> xs ! k) \<and> (\<forall>l<k. xs ! l < xs ! k)"
      then obtain k where k: "k < length xs" "argmax_from b bi (Suc i) xs = Suc i + k"
        "b < xs ! k" "\<forall>y\<in>set xs. y \<le> xs ! k" "\<forall>l<k. xs ! l < xs ! k" by blast
      have "\<exists>k<length (x # xs). argmax_from b bi i (x # xs) = i + k \<and> b < (x # xs) ! k
        \<and> (\<forall>y\<in>set (x # xs). y \<le> (x # xs) ! k) \<and> (\<forall>l<k. (x # xs) ! l < (x # xs) ! k)"
      proof (rule exI[of _ "Suc k"], intro conjI)
        show "\<forall>l<Suc k. (x # xs) ! l < (x # xs) ! Suc k"
        proof (intro allI impI)
          fix l assume "l < Suc k"
          then show "(x # xs) ! l < (x # xs) ! Suc k"
            using k(3,5) False by (cases l) auto
        qed
      qed (use False k in auto)
      then show ?thesis ..
    qed
  qed
qed

lemma argmax_first_max:
  assumes "xs \<noteq> []"
  shows "(\<forall>x\<in>set xs. x \<le> xs ! argmax xs) \<and> (\<forall>l<argmax xs. xs ! l < xs ! argmax xs)"
proof -
  from assms obtain y ys where xs: "xs = y # ys" by (cases xs) auto
  from argmax_from_spec[of y 0 1 ys] show ?thesis
  proof
    assume "argmax_from y 0 1 ys = 0 \<and> (\<forall>x\<in>set ys. x \<le> y)"
    then show ?thesis using xs by simp
  next
    assume "\<exists>k<length ys. argmax_from y 0 1 ys = 1 + k \<and> y < ys ! k
        \<and> (\<forall>x\<in>set ys. x \<le> ys ! k) \<and> (\<forall>l<k. ys ! l < ys ! k)"
    then obtain k where k: "k < length ys" "argmax_from y 0 1 ys = Suc k" "y < ys ! k"
      "\<forall>x\<in>set ys. x \<le> ys ! k" "\<forall>l<k. ys ! l < ys ! k" by auto
    have "\<forall>l<Suc k. (y # ys) ! l < ys ! k"
    proof (intro allI impI)
      fix l assume "l < Suc k"
      then show "(y # ys) ! l < ys ! k" using k(3,5) by (cases l) auto
    qed
    then show ?thesis using xs k by auto
  qed
qed

text \<open>With \<open>num_classes = n\<close> at least 1, the slice keeps the first \<open>n - 1\<close> columns.\<close>

lemma select_valid_fixed:
  "1 \<le> n \<Longrightarrow> select_valid (Some n) (initial_max_label (Some n)) (T2 w rows)
     = T2 (min (nat (n - 1)) w) (map (take (nat (n - 1))) rows)"
  by (simp add: initial_max_label_def slice_len_def py_slice_to_def)

subsection \<open>Allocation and the counting loop\<close>

lemma length_zeros: "length (zeros r c) = r"
  by (simp add: zeros_def)

lemma square_zeros: "square (zeros k k)"
  by (simp add: square_def zeros_def list_all_iff)

lemma nth_zeros: "i < r \<Longrightarrow> j < c \<Longrightarrow> zeros r c ! i ! j = 0"
  by (simp add: zeros_def)

lemma table_sum_zeros: "table_sum (zeros r c) = 0"
  by (simp add: table_sum_def zeros_def sum_list_replicate)

lemma length_pad: "length (pad cm d) = length cm + d"
  by (simp add: pad_def)

lemma ncols_square: "square cm \<Longrightarrow> ncols cm = length cm"
  by (cases cm) (auto simp: ncols_def square_def)

lemma square_pad: "square cm \<Longrightarrow> square (pad cm d)"
  by (auto simp: square_def list_all_iff pad_def ncols_square[unfolded square_def list_all_iff])

lemma nth_pad:
  assumes "square cm" and "i < length cm + d" and "j < length cm + d"
  shows "pad cm d ! i ! j = (if i < length cm \<and> j < length cm then cm ! i ! j else 0)"
proof (cases "i < length cm")
  case True
  then have "length (cm ! i) = length cm" using assms(1) by (simp add: square_def list_all_iff)
  with True assms(3) show ?thesis by (simp add: pad_def nth_append)
next
  case False
  with assms show ?thesis by (simp add: pad_def nth_append ncols_square)
qed

lemma table_sum_pad: "table_sum (pad cm d) = table_sum cm"
  by (simp add: table_sum_def pad_def sum_list_replicate comp_def)

text \<open>What the allocation step leaves, from a square table or none.\<close>

lemma allocate_props:
  assumes "case t of None \<Rightarrow> True | Some cm \<Rightarrow> square cm" and "0 \<le> ml"
  shows "square (allocate t ml)"
    and "length (allocate t ml) = max (case t of None \<Rightarrow> 0 | Some cm \<Rightarrow> length cm) (nat (ml + 1))"
    and "i < length (allocate t ml) \<Longrightarrow> j < length (allocate t ml) \<Longrightarrow>
         allocate t ml ! i ! j =
           (case t of None \<Rightarrow> 0 | Some cm \<Rightarrow> if i < length cm \<and> j < length cm then cm ! i ! j else 0)"
proof -
  show "square (allocate t ml)"
    using assms by (auto simp: allocate_def square_zeros square_pad split: option.splits)
  show len: "length (allocate t ml) = max (case t of None \<Rightarrow> 0 | Some cm \<Rightarrow> length cm) (nat (ml + 1))"
    using assms by (auto simp: allocate_def length_zeros length_pad split: option.splits)
  show "allocate t ml ! i ! j =
           (case t of None \<Rightarrow> 0 | Some cm \<Rightarrow> if i < length cm \<and> j < length cm then cm ! i ! j else 0)"
    if "i < length (allocate t ml)" and "j < length (allocate t ml)"
  proof (cases t)
    case None
    with that assms show ?thesis by (simp add: allocate_def length_zeros nth_zeros)
  next
    case (Some cm)
    show ?thesis
    proof (cases "ml \<ge> int (length cm)")
      case True
      with that assms Some show ?thesis
        by (simp add: allocate_def length_pad nth_pad)
    next
      case False
      with that assms Some show ?thesis by (simp add: allocate_def)
    qed
  qed
qed

lemma table_sum_allocate:
  "table_sum (allocate t ml) = (case t of None \<Rightarrow> 0 | Some cm \<Rightarrow> table_sum cm)"
  by (simp add: allocate_def table_sum_zeros table_sum_pad split: option.splits)

text \<open>One pass of the loop, and the loop.\<close>

lemma count_step_shape:
  "count_step mt mp cm t p = Some cm' \<Longrightarrow> map length cm' = map length cm"
proof (cases mt)
  case mt: True
  then show "count_step mt mp cm t p = Some cm' \<Longrightarrow> map length cm' = map length cm"
    by (cases mp) (auto split: option.splits)
next
  case mt: False
  assume st: "count_step mt mp cm t p = Some cm'"
  with mt obtain i where i: "py_index (length cm) t = Some i"
    by (cases mp) (auto split: option.splits)
  have il: "i < length cm" using i by (rule py_index_Some)
  show "map length cm' = map length cm"
  proof (cases mp)
    case True
    with st mt i have "cm' = (if p \<noteq> 0 then cm[i := map (\<lambda>c. c + 1) (cm ! i)] else cm)"
      by simp
    then show ?thesis using il by (simp add: map_update list_update_same_conv)
  next
    case False
    with st mt i obtain j where "cm' = cm[i := (cm ! i)[j := cm ! i ! j + 1]]"
      by (auto split: option.splits)
    then show ?thesis using il by (simp add: map_update list_update_same_conv)
  qed
qed

lemma count_loop_shape:
  "count_loop mt mp cm ts ps = (cm', r) \<Longrightarrow> map length cm' = map length cm"
proof (induction mt mp cm ts ps rule: count_loop.induct)
  case (3 mt mp cm t ts p ps)
  show ?case
  proof (cases "count_step mt mp cm t p")
    case None
    with 3(2) show ?thesis by simp
  next
    case (Some cm1)
    with 3(2) have "count_loop mt mp cm1 ts ps = (cm', r)" by simp
    from 3(1)[OF Some this] count_step_shape[OF Some] show ?thesis by simp
  qed
qed simp_all

lemma square_cong:
  assumes "map length cm' = map length cm"
  shows "square cm' = square cm"
proof -
  have l: "length cm' = length cm" using assms by (rule map_eq_imp_length_eq)
  have "set (map length cm') = set (map length cm)" using assms by simp
  then have "length ` set cm' = length ` set cm" by simp
  then have "(\<forall>r\<in>set cm'. length r = length cm) = (\<forall>r\<in>set cm. length r = length cm)"
    by (metis (mono_tags, lifting) image_iff)
  with l show ?thesis by (simp add: square_def list_all_iff)
qed

lemma count_loop_square:
  "count_loop mt mp cm ts ps = (cm', r) \<Longrightarrow> square cm \<Longrightarrow> square cm'"
  using count_loop_shape square_cong by blast

lemma count_loop_length: "count_loop mt mp cm ts ps = (cm', r) \<Longrightarrow> length cm' = length cm"
  using count_loop_shape map_eq_imp_length_eq by blast

lemma count_loop_error:
  "count_loop mt mp cm ts ps = (cm', Some e) \<Longrightarrow> e = IndexOutOfRange"
  by (induction mt mp cm ts ps rule: count_loop.induct) (auto split: option.splits)

text \<open>With a mask as the true label nothing is written to the table.\<close>

lemma count_loop_mask_true: "count_loop True mp cm ts ps = (cm', r) \<Longrightarrow> cm' = cm"
proof (induction "True" mp cm ts ps rule: count_loop.induct)
  case (3 mp cm t ts p ps)
  show ?case
  proof (cases "count_step True mp cm t p")
    case None
    with 3(2) show ?thesis by simp
  next
    case (Some cm1)
    then have "cm1 = cm" by (cases mp) (auto split: option.splits)
    with 3 Some show ?thesis by simp
  qed
qed simp_all

lemma batch_count_mask_true: "batch_count True mp ts ps i j = 0"
  by (simp add: batch_count_def hits_def)

lemma batch_count_Nil: "batch_count mt mp [] ps i j = 0"
  by (simp add: batch_count_def)

lemma batch_count_Cons:
  "batch_count mt mp (t # ts) (p # ps) i j
     = (if hits mt mp t p i j then 1 else 0) + batch_count mt mp ts ps i j"
  by (simp add: batch_count_def)

text \<open>
  One pass with an integer true label in range (and an integer predicted label in
  range, when it is one) raises nothing and adds 1 to the cells the sample hits.
\<close>

lemma count_step_cells:
  assumes "square cm" and "0 \<le> t" and "t < int (length cm)"
    and "\<not> mp \<Longrightarrow> 0 \<le> p \<and> p < int (length cm)"
  shows "\<exists>cm'. count_step False mp cm t p = Some cm' \<and>
    (\<forall>i<length cm. \<forall>j<length cm.
       cm' ! i ! j = cm ! i ! j + (if hits False mp t p i j then 1 else 0))"
proof -
  let ?i = "nat t"
  have rows: "\<And>a. a < length cm \<Longrightarrow> length (cm ! a) = length cm"
    using assms(1) by (simp add: square_def list_all_iff)
  have i: "py_index (length cm) t = Some ?i" using assms(2,3) by (rule py_index_in_range)
  have il: "?i < length cm" using assms(2,3) by simp
  show ?thesis
  proof (cases mp)
    case True
    let ?cm = "if p \<noteq> 0 then cm[?i := map (\<lambda>c. c + 1) (cm ! ?i)] else cm"
    have st: "count_step False mp cm t p = Some ?cm" using True i by simp
    have "?cm ! a ! b = cm ! a ! b + (if hits False mp t p a b then 1 else 0)"
      if "a < length cm" and "b < length cm" for a b
    proof (cases "a = ?i")
      case a: True
      with that assms(2) rows[of a] True show ?thesis
        by (auto simp: hits_def nth_list_update)
    next
      case a: False
      with that assms(2) True show ?thesis by (auto simp: hits_def nth_list_update)
    qed
    with st show ?thesis by blast
  next
    case False
    let ?j = "nat p"
    from assms(4)[OF False] have p: "0 \<le> p" "p < int (length cm)" by simp_all
    have j: "py_index (length (cm ! ?i)) p = Some ?j"
      using p rows[OF il] by (simp add: py_index_in_range)
    let ?cm = "cm[?i := (cm ! ?i)[?j := cm ! ?i ! ?j + 1]]"
    have st: "count_step False mp cm t p = Some ?cm" using False i j by simp
    have "?cm ! a ! b = cm ! a ! b + (if hits False mp t p a b then 1 else 0)"
      if "a < length cm" and "b < length cm" for a b
    proof (cases "a = ?i")
      case a: True
      with that assms(2) p rows[of a] False show ?thesis
        by (auto simp: hits_def nth_list_update)
    next
      case a: False
      with that assms(2) False show ?thesis by (auto simp: hits_def nth_list_update)
    qed
    with st show ?thesis by blast
  qed
qed

lemma count_loop_cells:
  assumes "length ts = length ps" and "square cm"
    and "\<forall>t\<in>set ts. 0 \<le> t \<and> t < int (length cm)"
    and "\<not> mp \<Longrightarrow> \<forall>p\<in>set ps. 0 \<le> p \<and> p < int (length cm)"
  shows "\<exists>cm'. count_loop False mp cm ts ps = (cm', None) \<and>
    (\<forall>i<length cm. \<forall>j<length cm.
       cm' ! i ! j = cm ! i ! j + of_nat (batch_count False mp ts ps i j))"
  using assms
proof (induction ts ps arbitrary: cm rule: list_induct2)
  case Nil
  then show ?case by (simp add: batch_count_Nil)
next
  case (Cons t ts p ps)
  from Cons.prems have t: "0 \<le> t" "t < int (length cm)" by auto
  have p: "\<not> mp \<Longrightarrow> 0 \<le> p \<and> p < int (length cm)" using Cons.prems(3) by simp
  from count_step_cells[OF Cons.prems(1) t p]
  obtain cm1 where st: "count_step False mp cm t p = Some cm1"
    and c1: "\<forall>i<length cm. \<forall>j<length cm.
       cm1 ! i ! j = cm ! i ! j + (if hits False mp t p i j then 1 else 0)"
    by blast
  have shape: "map length cm1 = map length cm" using st by (rule count_step_shape)
  then have sq: "square cm1" using Cons.prems(1) square_cong by blast
  have len: "length cm1 = length cm" using shape by (rule map_eq_imp_length_eq)
  have tb: "\<forall>t\<in>set ts. 0 \<le> t \<and> t < int (length cm1)" using Cons.prems(2) len by simp
  have pb: "\<not> mp \<Longrightarrow> \<forall>p\<in>set ps. 0 \<le> p \<and> p < int (length cm1)"
    using Cons.prems(3) len by simp
  from Cons.IH[OF sq tb pb] len
  obtain cm' where run: "count_loop False mp cm1 ts ps = (cm', None)"
    and cells: "\<forall>i<length cm. \<forall>j<length cm.
       cm' ! i ! j = cm1 ! i ! j + of_nat (batch_count False mp ts ps i j)"
    by auto
  have step: "count_loop False mp cm (t # ts) (p # ps) = (cm', None)"
    using st run by simp
  have "cm' ! i ! j = cm ! i ! j + of_nat (batch_count False mp (t # ts) (p # ps) i j)"
    if "i < length cm" and "j < length cm" for i j
    using that cells c1 by (simp add: batch_count_Cons)
  with step show ?case by blast
qed

text \<open>With integer indices each sample adds 1 to one cell, so 1 to the sum.\<close>

lemma sum_list_upd:
  fixes xs :: "int64 list"
  shows "j < length xs \<Longrightarrow> sum_list (xs[j := x]) = sum_list xs + x - xs ! j"
proof (induction xs arbitrary: j)
  case Nil
  then show ?case by simp
next
  case (Cons y ys)
  then show ?case by (cases j) auto
qed

lemma table_sum_incr:
  assumes "i < length cm" and "j < length (cm ! i)"
  shows "table_sum (cm[i := (cm ! i)[j := cm ! i ! j + 1]]) = table_sum cm + 1"
proof -
  have "table_sum (cm[i := (cm ! i)[j := cm ! i ! j + 1]])
      = sum_list ((map sum_list cm)[i := sum_list ((cm ! i)[j := cm ! i ! j + 1])])"
    by (simp add: table_sum_def map_update)
  also have "\<dots> = sum_list (map sum_list cm) + sum_list ((cm ! i)[j := cm ! i ! j + 1])
      - map sum_list cm ! i"
    using assms(1) by (simp add: sum_list_upd)
  also have "\<dots> = table_sum cm + 1"
    using assms by (simp add: table_sum_def sum_list_upd)
  finally show ?thesis .
qed

lemma count_loop_sum:
  "count_loop False False cm ts ps = (cm', None)
     \<Longrightarrow> table_sum cm' = table_sum cm + of_nat (length ts)"
proof (induction "False" "False" cm ts ps rule: count_loop.induct)
  case (3 cm t ts p ps)
  from 3(2) obtain cm1 where st: "count_step False False cm t p = Some cm1"
    and run: "count_loop False False cm1 ts ps = (cm', None)"
    by (auto split: option.splits)
  from st obtain i j where i: "py_index (length cm) t = Some i"
    and j: "py_index (length (cm ! i)) p = Some j"
    and cm1: "cm1 = cm[i := (cm ! i)[j := cm ! i ! j + 1]]"
    by (auto split: option.splits)
  from 3(1)[OF st run] have "table_sum cm' = table_sum cm1 + of_nat (length ts)" .
  then show ?case
    using table_sum_incr[OF py_index_Some[OF i] py_index_Some[OF j]] cm1 by simp
qed simp_all

subsection \<open>One call of \<open>update\<close>\<close>

lemma update_validate_Inl: "validate s t p = Inl e \<Longrightarrow> update s t p = (s, Inl e)"
  by (simp add: update_def)

lemma update_Inl_cases:
  assumes "update s t p = (s', Inl e)"
  shows "(validate s t p = Inl e \<and> s' = s) \<or> e = IndexOutOfRange"
proof (cases "validate s t p")
  case (Inl e')
  with assms show ?thesis by (simp add: update_def)
next
  case (Inr r)
  obtain ml ts ps where r: "r = (ml, ts, ps)" by (cases r)
  obtain cm x where c: "count_loop (mask_labels t) (mask_labels p)
      (allocate (cm_tensor s) ml) ts ps = (cm, x)" by fastforce
  with assms Inr r have "x = Some e" by (auto simp: update_def split: option.splits)
  with c show ?thesis using count_loop_error by blast
qed

lemma update_Inr_cases:
  assumes "update s t p = (s', Inr u)"
  obtains ml ts ps cm where "validate s t p = Inr (ml, ts, ps)"
    and "count_loop (mask_labels t) (mask_labels p) (allocate (cm_tensor s) ml) ts ps = (cm, None)"
    and "s' = s\<lparr>cm_tensor := Some cm\<rparr>"
proof (cases "validate s t p")
  case (Inl e')
  with assms show ?thesis by (simp add: update_def)
next
  case (Inr r)
  obtain ml ts ps where r: "r = (ml, ts, ps)" by (cases r)
  obtain cm x where c: "count_loop (mask_labels t) (mask_labels p)
      (allocate (cm_tensor s) ml) ts ps = (cm, x)" by fastforce
  with assms Inr r have "x = None" and "s' = s\<lparr>cm_tensor := Some cm\<rparr>"
    by (auto simp: update_def split: option.splits)
  with that Inr r c show ?thesis by blast
qed

text \<open>
  A call that passes the checks, on a square table and rectangular inputs: the table it
  leaves, whether the loop then raises or not. With integer true labels it does not.
\<close>

lemma update_valid:
  assumes "wf_state s" and "wf_tensor t" and "wf_tensor p"
    and "validate s t p = Inr (ml, ts, ps)"
  obtains cm r where "update s t p = (s\<lparr>cm_tensor := Some cm\<rparr>, r)"
    and "count_loop (mask_labels t) (mask_labels p) (allocate (cm_tensor s) ml) ts ps
           = (cm, case r of Inl e \<Rightarrow> Some e | Inr u \<Rightarrow> None)"
    and "square cm" and "length cm = max (dim s) (nat (ml + 1))"
    and "\<forall>i<length cm. \<forall>j<length cm.
           cm ! i ! j = cell s i j
             + of_nat (batch_count (mask_labels t) (mask_labels p) ts ps i j)"
    and "\<not> mask_labels t \<longrightarrow> r = Inr ()"
proof -
  let ?a = "allocate (cm_tensor s) ml"
  let ?mt = "mask_labels t" and ?mp = "mask_labels p"
  note b = validate_bounds[OF assms(4,2,3)]
  have sq0: "case cm_tensor s of None \<Rightarrow> True | Some cm \<Rightarrow> square cm"
    using assms(1) by (simp add: wf_state_def)
  note a = allocate_props[OF sq0 b(1)]
  have len: "length ?a = max (dim s) (nat (ml + 1))"
    using a(2) by (simp add: dim_def)
  have tb: "\<forall>t\<in>set ts. 0 \<le> t \<and> t < int (length ?a)"
    using b(2) len by fastforce
  have pb: "\<forall>p\<in>set ps. 0 \<le> p \<and> p < int (length ?a)"
    using b(3) len by fastforce
  have old: "?a ! i ! j = cell s i j" if "i < length ?a" and "j < length ?a" for i j
  proof (cases "cm_tensor s")
    case None
    with a(3)[OF that] show ?thesis by (simp add: cell_def)
  next
    case (Some c)
    then have "square c" using assms(1) by (simp add: wf_state_def)
    then have "\<And>i. i < length c \<Longrightarrow> length (c ! i) = length c"
      by (simp add: square_def list_all_iff)
    with a(3)[OF that] Some show ?thesis by (auto simp: cell_def)
  qed
  obtain cm x where run: "count_loop ?mt ?mp ?a ts ps = (cm, x)" by fastforce
  have l: "length cm = length ?a" using run by (rule count_loop_length)
  have sq: "square cm" using run a(1) by (rule count_loop_square)
  define r :: "error + unit" where "r = (case x of None \<Rightarrow> Inr () | Some e \<Rightarrow> Inl e)"
  have u: "update s t p = (s\<lparr>cm_tensor := Some cm\<rparr>, r)"
    using assms(4) run by (simp add: update_def r_def)
  have x: "x = (case r of Inl e \<Rightarrow> Some e | Inr u \<Rightarrow> None)"
    by (simp add: r_def split: option.splits)
  have cells: "\<forall>i<length cm. \<forall>j<length cm.
      cm ! i ! j = cell s i j + of_nat (batch_count ?mt ?mp ts ps i j)"
    and ok: "\<not> ?mt \<longrightarrow> r = Inr ()"
  proof -
    show "\<forall>i<length cm. \<forall>j<length cm.
      cm ! i ! j = cell s i j + of_nat (batch_count ?mt ?mp ts ps i j)"
    proof (cases ?mt)
      case True
      with run have "cm = ?a" using count_loop_mask_true by simp
      with True old show ?thesis by (simp add: batch_count_mask_true)
    next
      case False
      from count_loop_cells[OF b(4) a(1) tb, of ?mp] pb
      obtain cm' where "count_loop False ?mp ?a ts ps = (cm', None)"
        and c: "\<forall>i<length ?a. \<forall>j<length ?a.
          cm' ! i ! j = ?a ! i ! j + of_nat (batch_count False ?mp ts ps i j)"
        by blast
      with run False have "cm' = cm" by simp
      with c False l old show ?thesis by simp
    qed
    show "\<not> ?mt \<longrightarrow> r = Inr ()"
    proof
      assume m: "\<not> ?mt"
      from count_loop_cells[OF b(4) a(1) tb, of ?mp] pb
      obtain cm' where "count_loop False ?mp ?a ts ps = (cm', None)" by blast
      with run m have "x = None" by simp
      then show "r = Inr ()" by (simp add: r_def)
    qed
  qed
  show ?thesis
    using that[OF u _ sq _ cells ok] run x l len by simp
qed

lemma update_wf_state: "wf_state s \<Longrightarrow> wf_state (fst (update s t p))"
proof (cases "validate s t p")
  case (Inl e)
  assume "wf_state s"
  with Inl show ?thesis by (simp add: update_def)
next
  case (Inr r)
  assume wf: "wf_state s"
  obtain ml ts ps where r: "r = (ml, ts, ps)" by (cases r)
  obtain cm x where c: "count_loop (mask_labels t) (mask_labels p)
      (allocate (cm_tensor s) ml) ts ps = (cm, x)" by fastforce
  from Inr r have "0 \<le> ml" by (auto elim: validate_Inr)
  with wf have "square (allocate (cm_tensor s) ml)"
    by (intro allocate_props(1)) (simp_all add: wf_state_def)
  with c have "square cm" by (rule count_loop_square)
  with Inr r c show ?thesis by (simp add: update_def wf_state_def)
qed

section \<open>The claims\<close>

lemma cm_tensor_init: "cm_tensor (init nc m) = None"
  by (simp add: init_def)

lemma cm_tensor_reset: "cm_tensor (reset s) = None"
  by (simp add: reset_def)

text \<open>
  Claim C1 (truncation of score vectors under a fixed \<open>num_classes\<close>). The claim and
  the docstring of the class (``only the first \<open>num_classes\<close> units will be considered'')
  say the first \<open>num_classes\<close> columns; the source slices with \<open>[:, :max_label]\<close>, where
  \<open>max_label\<close> is \<open>num_classes - 1\<close>, and so keeps one column less. With
  \<open>num_classes = 3\<close>, the true label \<open>0\<close> and the scores \<open>[1, 2, 9]\<close>, the maximum among the
  first three scores is at position 2, and the code counts the sample at column 1.
  (\<open>argmax\<close> does return the first position of a maximum, \<open>argmax_first_max\<close>; the
  slice is the one column short for every \<open>num_classes\<close> of at least 1,
  \<open>select_valid_fixed\<close>.)
\<close>

theorem update_truncation_example:
  "update (init (Some 3) None) (T1 Int64 [0]) (T2 3 [[1, 2, 9 :: int]])
     = (\<lparr>cm_tensor = Some [[0, 1, 0], [0, 0, 0], [0, 0, 0]], num_classes = Some 3,
          normalize_mode = None\<rparr>, Inr ())"
  by code_simp

text \<open>
  Claim C2 (an unknown normalization mode makes \<open>result\<close> fail). As stated, with
  ``including before any update'', it does not hold: on an object that has no table,
  \<open>result\<close> returns the zero table before it looks at the mode.
\<close>

theorem result_unknown_mode_empty:
  "result exact_ops (init (Some 2) (Some ''bogus''))
     = (init (Some 2) (Some ''bogus''), Inr (LongTensor [[0, 0], [0, 0]]))"
  by code_simp

text \<open>
  Claim C2, amended: once the object has a table (after a successful \<open>update\<close> and no
  \<open>reset\<close> since), every call of \<open>result\<close> with a mode other than \<open>'true'\<close>, \<open>'pred'\<close> and
  \<open>'all'\<close> fails with the error of \<open>_normalize_cm\<close>, and leaves the object as it was.
\<close>

theorem result_unknown_mode:
  assumes "cm_tensor s = Some cm" and "normalize_mode s = Some m"
    and "m \<notin> {''true'', ''pred'', ''all''}"
  shows "result ops s = (s, Inl InvalidNormalization)"
  using assms by (simp add: result_def normalize_cm_def)

theorem result_unknown_mode_witness:
  "cm_tensor (fst (update (init None (Some ''bogus'')) (T1 Int64 [0, 1] :: int tensor) (T1 Int64 [1, 1])))
      = Some [[0, 1], [0, 1]]
   \<and> normalize_mode (fst (update (init None (Some ''bogus'')) (T1 Int64 [0, 1] :: int tensor) (T1 Int64 [1, 1])))
      = Some ''bogus''
   \<and> ''bogus'' \<notin> {''true'', ''pred'', ''all''}
   \<and> result exact_ops (fst (update (init None (Some ''bogus'')) (T1 Int64 [0, 1] :: int tensor) (T1 Int64 [1, 1])))
      = (fst (update (init None (Some ''bogus'')) (T1 Int64 [0, 1] :: int tensor) (T1 Int64 [1, 1])),
         Inl InvalidNormalization)"
proof -
  let ?s = "fst (update (init None (Some ''bogus'')) (T1 Int64 [0, 1] :: int tensor) (T1 Int64 [1, 1]))"
  have s: "?s = \<lparr>cm_tensor = Some [[0, 1], [0, 1]], num_classes = None,
                  normalize_mode = Some ''bogus''\<rparr>"
    by code_simp
  have a: "cm_tensor ?s = Some [[0, 1], [0, 1]]" and b: "normalize_mode ?s = Some ''bogus''"
    by (simp_all add: s)
  have c: "''bogus'' \<notin> {''true'', ''pred'', ''all''}" by simp
  from result_unknown_mode[OF a b c, of exact_ops] a b c show ?thesis by simp
qed

text \<open>
  Claim C3 (a failed \<open>update\<close> changes nothing). Every error but an index out of
  range is raised by the checks, which come before the first assignment to the table:
  the object a failed call leaves is the object it was given. This covers the size
  mismatch, the two errors on more than two dimensions, the negative label and the two
  errors on a label not below \<open>num_classes\<close>. (The index error of line 166 comes after
  the table was allocated; on a square table it cannot occur when the true labels index
  as integers: see C10.)
\<close>

theorem update_failure_atomic:
  assumes "snd (update s t p) = Inl e" and "e \<noteq> IndexOutOfRange"
  shows "fst (update s t p) = s"
proof -
  have "update s t p = (fst (update s t p), Inl e)"
    using assms(1) by (simp add: prod_eq_iff)
  from update_Inl_cases[OF this] assms(2) show ?thesis by simp
qed

theorem update_failure_atomic_witness:
  "snd (update \<lparr>cm_tensor = Some [[1, 0], [1, 1]], num_classes = Some 2, normalize_mode = None\<rparr>
         (T1 Int64 [0, 5] :: int tensor) (T1 Int64 [0, 0])) = Inl TargetLabelTooLarge
   \<and> TargetLabelTooLarge \<noteq> IndexOutOfRange
   \<and> fst (update \<lparr>cm_tensor = Some [[1, 0], [1, 1]], num_classes = Some 2, normalize_mode = None\<rparr>
         (T1 Int64 [0, 5] :: int tensor) (T1 Int64 [0, 0]))
       = \<lparr>cm_tensor = Some [[1, 0], [1, 1]], num_classes = Some 2, normalize_mode = None\<rparr>"
proof -
  let ?s = "\<lparr>cm_tensor = Some [[1, 0], [1, 1]], num_classes = Some 2, normalize_mode = None\<rparr>"
  have a: "snd (update ?s (T1 Int64 [0, 5] :: int tensor) (T1 Int64 [0, 0])) = Inl TargetLabelTooLarge"
    by code_simp
  have b: "TargetLabelTooLarge \<noteq> IndexOutOfRange" by simp
  from update_failure_atomic[OF a b] a b show ?thesis by simp
qed

text \<open>
  Claim C5 (\<open>result\<close> on an object that has no table). Such an object is what \<open>__init__\<close>
  and \<open>reset\<close> leave (\<open>cm_tensor_init\<close>, \<open>cm_tensor_reset\<close>), and what a failed \<open>update\<close>
  keeps. \<open>result\<close> returns the table of \<open>num_classes\<close> rows and columns of zeros, or the
  table with no row when \<open>num_classes\<close> is not set, whatever the normalization mode, and
  does not fail. A number of classes is not negative.
\<close>

theorem result_empty:
  assumes "cm_tensor s = None" and "num_classes s = None \<or> num_classes s = Some (int k)"
  shows "result ops s =
    (s, Inr (LongTensor (case num_classes s of
                           None \<Rightarrow> []
                         | Some n \<Rightarrow> replicate k (replicate k 0))))"
  using assms by (auto simp: result_def zeros_def)

theorem result_empty_witness:
  "cm_tensor (init (Some 2) (Some ''true'')) = None
   \<and> cm_tensor (reset (fst (update (init None None) (T1 Int64 [0, 1] :: int tensor) (T1 Int64 [1, 1])))) = None
   \<and> (num_classes (init (Some 2) (Some ''true'')) = None
        \<or> num_classes (init (Some 2) (Some ''true'')) = Some (int 2))
   \<and> result exact_ops (init (Some 2) (Some ''true''))
       = (init (Some 2) (Some ''true''), Inr (LongTensor [[0, 0], [0, 0]]))
   \<and> result exact_ops (reset (fst (update (init None None) (T1 Int64 [0, 1] :: int tensor) (T1 Int64 [1, 1]))))
       = (reset (fst (update (init None None) (T1 Int64 [0, 1] :: int tensor) (T1 Int64 [1, 1]))),
          Inr (LongTensor []))"
proof -
  let ?s = "init (Some 2) (Some ''true'')"
  let ?r = "reset (fst (update (init None None) (T1 Int64 [0, 1] :: int tensor) (T1 Int64 [1, 1])))"
  have a: "cm_tensor ?s = None" by (rule cm_tensor_init)
  have b: "num_classes ?s = None \<or> num_classes ?s = Some (int 2)" by (simp add: init_def)
  have c: "cm_tensor ?r = None" by (rule cm_tensor_reset)
  have d: "num_classes ?r = None" by code_simp
  then have d': "num_classes ?r = None \<or> num_classes ?r = Some (int 0)" by simp
  have n: "num_classes ?s = Some 2" by (simp add: init_def)
  from result_empty[OF a b, of exact_ops] result_empty[OF c d', of exact_ops] a b c d n
  show ?thesis by (simp add: numeral_2_eq_2)
qed

lemma select_valid_T1: "select_valid nc ml (T1 d xs) = T1 d xs"
  by (cases nc) simp_all

text \<open>A tensor of direct labels passes its block only if no label is out of range.\<close>

lemma validate_T1_labels:
  assumes "validate s t p = Inr (ml, ts, ps)" and "t = T1 d xs \<or> p = T1 d xs" and "x \<in> set xs"
  shows "0 \<le> x" and "num_classes s = Some n \<Longrightarrow> x < n"
proof -
  let ?nc = "num_classes s"
  from assms(1) obtain ml1 where
    p: "to_labels PredictedLabelTooLarge ?nc (initial_max_label ?nc)
           (select_valid ?nc (initial_max_label ?nc) p) = Inr (ml1, ps)"
    and t: "to_labels TargetLabelTooLarge ?nc ml1
           (select_valid ?nc (initial_max_label ?nc) t) = Inr (ml, ts)"
    by (rule validate_Inr)
  from assms(2) obtain e m m' ls where "to_labels e ?nc m (T1 d xs) = Inr (m', ls)"
    using p t by (auto simp: select_valid_T1)
  from to_labels_T1[OF this] assms(3)
  show "0 \<le> x" and "num_classes s = Some n \<Longrightarrow> x < n" by auto
qed

lemma update_bad_label_fails:
  assumes "x \<in> set xs" and "x < 0 \<or> (num_classes s = Some n \<and> n \<le> x)"
    and "t = T1 d xs \<or> p = T1 d xs"
  shows "\<exists>e. validate s t p = Inl e"
proof (cases "validate s t p")
  case (Inl e)
  then show ?thesis by blast
next
  case (Inr r)
  obtain ml ts ps where "r = (ml, ts, ps)" by (cases r)
  with Inr have v: "validate s t p = Inr (ml, ts, ps)" by simp
  from validate_T1_labels[OF v assms(3,1)] assms(2) show ?thesis by fastforce
qed

lemma to_labels_T1_eq:
  assumes "xs \<noteq> []"
  shows "to_labels e nc ml (T1 d xs :: 'a::linorder tensor) =
     (if list_ex (\<lambda>y. y < 0) xs then Inl NegativeLabel
      else (case nc of
              None \<Rightarrow> Inr (max ml (Max (set xs)), xs)
            | Some n \<Rightarrow> if list_ex (\<lambda>y. n \<le> y) xs then Inl e else Inr (ml, xs)))"
proof -
  have a: "(Min (set xs) < 0) = list_ex (\<lambda>y. y < 0) xs"
    using assms by (simp add: Min_less_iff list_ex_iff)
  have b: "(n \<le> Max (set xs)) = list_ex (\<lambda>y. n \<le> y) xs" for n
    using assms by (simp add: Max_ge_iff list_ex_iff)
  show ?thesis using assms by (simp add: a b split: option.splits)
qed

lemma validate_direct:
  assumes "length ts = length ps" and "x \<in> set ts \<union> set ps"
    and "x < 0 \<or> (num_classes s = Some n \<and> n \<le> x)"
  shows "validate s (T1 dt ts :: 'a::linorder tensor) (T1 dp ps)
    = Inl (direct_error (num_classes s) ts ps)"
proof -
  from assms(1,2) have ne: "ts \<noteq> []" "ps \<noteq> []" by auto
  have bad: "list_ex (\<lambda>y. y < 0) ps \<or> list_ex (\<lambda>y. y < 0) ts
      \<or> (num_classes s = Some n \<and> (list_ex (\<lambda>y. n \<le> y) ps \<or> list_ex (\<lambda>y. n \<le> y) ts))"
    using assms(2,3) by (auto simp: list_ex_iff)
  show ?thesis
  proof (cases "num_classes s")
    case None
    with bad ne assms(1) show ?thesis
      by (auto simp: validate_def select_valid_T1 to_labels_T1_eq direct_error_def Let_def
          simp del: to_labels.simps)
  next
    case (Some k)
    with bad ne assms(1) show ?thesis
      by (auto simp: validate_def select_valid_T1 to_labels_T1_eq direct_error_def Let_def
          simp del: to_labels.simps)
  qed
qed


text \<open>
  Claim C7 (direct labels out of range make \<open>update\<close> fail). Let \<open>x\<close> be a label of a
  tensor \<open>xs\<close> of direct labels, of any element type, negative, or not below a fixed
  \<open>num_classes\<close>. Then a
  call of \<open>update\<close> with \<open>xs\<close> as either input fails, whatever the other input is, and
  leaves the object as it was. When both inputs are direct labels and of one length,
  the error is the one of the check that fails first, \<open>direct_error\<close>: one of the
  \<open>ValueError\<close>s on a negative label or on a label not below \<open>num_classes\<close>. With
  \<open>num_classes = 3\<close> and the true labels \<open>[0, 5]\<close> the call fails: the witness.
\<close>

theorem update_rejects_labels:
  assumes "x \<in> set xs" and "x < 0 \<or> (num_classes s = Some n \<and> n \<le> x)"
  shows "(t = T1 d xs \<or> p = T1 d xs \<longrightarrow> (\<exists>e. update s t p = (s, Inl e)))
    \<and> ((xs = ts \<or> xs = ps) \<and> length ts = length ps \<longrightarrow>
         update s (T1 dt ts) (T1 dp ps :: 'a::linorder tensor)
           = (s, Inl (direct_error (num_classes s) ts ps))
         \<and> direct_error (num_classes s) ts ps
             \<in> {NegativeLabel, PredictedLabelTooLarge, TargetLabelTooLarge})"
proof (intro conjI impI)
  assume "t = T1 d xs \<or> p = T1 d xs"
  from update_bad_label_fails[OF assms this] obtain e where "validate s t p = Inl e" ..
  then have "update s t p = (s, Inl e)" by (rule update_validate_Inl)
  then show "\<exists>e. update s t p = (s, Inl e)" ..
next
  assume a: "(xs = ts \<or> xs = ps) \<and> length ts = length ps"
  with assms(1) have "x \<in> set ts \<union> set ps" by auto
  with a assms(2)
  have "validate s (T1 dt ts :: 'a tensor) (T1 dp ps) = Inl (direct_error (num_classes s) ts ps)"
    by (intro validate_direct) auto
  then show "update s (T1 dt ts) (T1 dp ps :: 'a tensor)
      = (s, Inl (direct_error (num_classes s) ts ps))"
    by (rule update_validate_Inl)
next
  show "direct_error (num_classes s) ts ps
      \<in> {NegativeLabel, PredictedLabelTooLarge, TargetLabelTooLarge}"
    by (simp add: direct_error_def)
qed

theorem update_rejects_labels_witness:
  "(5::int) \<in> set [0, 5]
   \<and> ((5::int) < 0 \<or> (num_classes (init (Some 3) None) = Some 3 \<and> (3::int) \<le> 5))
   \<and> (\<exists>e. update (init (Some 3) None) (T1 Int64 [0, 5]) (T2 3 [[1, 2, 9 :: int]])
          = (init (Some 3) None, Inl e))
   \<and> update (init (Some 3) None) (T1 Int64 [0, 5]) (T1 Int64 [0, 0] :: int tensor)
       = (init (Some 3) None, Inl TargetLabelTooLarge)"
proof -
  let ?s = "init (Some 3) None"
  have a: "(5::int) \<in> set [0, 5]" by simp
  have b: "(5::int) < 0 \<or> (num_classes ?s = Some 3 \<and> (3::int) \<le> 5)"
    by (simp add: init_def)
  have d: "direct_error (num_classes ?s) [0, 5] [0, 0] = TargetLabelTooLarge"
    by code_simp
  from update_rejects_labels[OF a b, where t = "T1 Int64 [0, 5]" and d = Int64
      and p = "T2 3 [[1, 2, 9 :: int]]" and ts = "[0, 5]" and ps = "[0, 0]"
      and dt = Int64 and dp = Int64]
    a b d show ?thesis by simp
qed

text \<open>
  With integer indices every sample adds 1 to one cell: a successful call whose labels
  do not index as masks adds the number of its samples to the sum of the cells, in the
  arithmetic of \<open>torch.long\<close>.
\<close>

lemma update_cells_sum:
  assumes "update s t p = (s', Inr u)" and "wf_tensor t" and "wf_tensor p"
    and "tensor_len t = Some n" and "\<not> mask_labels t" and "\<not> mask_labels p"
  shows "cells_sum s' = cells_sum s + of_nat n"
proof -
  from assms(1) obtain ml ts ps cm where v: "validate s t p = Inr (ml, ts, ps)"
    and c: "count_loop (mask_labels t) (mask_labels p) (allocate (cm_tensor s) ml) ts ps
              = (cm, None)"
    and s': "s' = s\<lparr>cm_tensor := Some cm\<rparr>"
    by (rule update_Inr_cases)
  have "length ts = n" using validate_bounds(5)[OF v assms(2,3)] assms(4) by simp
  moreover have "count_loop False False (allocate (cm_tensor s) ml) ts ps = (cm, None)"
    using c assms(5,6) by simp
  ultimately show ?thesis
    using count_loop_sum[of "allocate (cm_tensor s) ml" ts ps cm] s'
    by (simp add: cells_sum_def table_sum_allocate)
qed

text \<open>
  Claim C4 (the cells sum to the number of samples). The claim holds of the calls whose
  labels index as integers (\<open>update_cells_sum\<close>), and fails on the code for direct labels
  of type \<open>torch.uint8\<close> or \<open>torch.bool\<close>: line 166 indexes with 0-dimensional tensors,
  which torch reads as masks for these types. On a new object with \<open>num_classes = 2\<close>,
  the true labels \<open>[0, 1, 1]\<close> (\<open>torch.long\<close>) and the predicted labels \<open>[0, 1, 0]\<close>
  (\<open>torch.uint8\<close>), all in \<open>[0, 2)\<close>, the call succeeds and the cells sum to 2, not to
  the 3 samples: the second sample adds 1 to the whole row 1, the others add nothing.
\<close>

theorem update_mask_labels_example:
  "update (init (Some 2) None) (T1 Int64 [0, 1, 1]) (T1 UInt8 [0, 1, 0] :: int tensor)
     = (\<lparr>cm_tensor = Some [[0, 0], [1, 1]], num_classes = Some 2, normalize_mode = None\<rparr>,
        Inr ())
   \<and> cells_sum \<lparr>cm_tensor = Some [[0, 0], [1, 1]], num_classes = Some 2,
                 normalize_mode = None\<rparr> = 2"
  by code_simp

text \<open>
  Claim C6 (\<open>result\<close> has no effect on the object, and returns a normalized copy).
  \<open>result\<close> assigns to no attribute: the object it leaves is the object it was given, so a
  second call returns what the first returned. What it returns of an object that has
  a table: without a normalization mode the stored counts; with the mode \<open>'true'\<close> each
  count divided by the sum of its row, with \<open>'pred'\<close> by the sum of its column, with
  \<open>'all'\<close> by the sum of the table, each quotient passed through \<open>nan_to_num\<close>. That
  table is a new tensor of \<open>torch.float64\<close>, not the stored one of \<open>torch.long\<close>, which
  keeps its counts.
\<close>

theorem result_pure:
  "fst (result ops s) = s
   \<and> snd (result ops (fst (result ops s))) = snd (result ops s)
   \<and> (\<forall>cm. cm_tensor s = Some cm \<longrightarrow>
         cm_tensor (fst (result ops s)) = Some cm
       \<and> (normalize_mode s = None \<longrightarrow> snd (result ops s) = Inr (LongTensor cm))
       \<and> (normalize_mode s = Some ''true'' \<longrightarrow>
            snd (result ops s) = Inr (DoubleTensor
              (map (\<lambda>r. map (\<lambda>c. nan_to_num_f64 ops (div_f64 ops c (sum_f64 ops r))) r) cm)))
       \<and> (normalize_mode s = Some ''pred'' \<longrightarrow>
            snd (result ops s) = Inr (DoubleTensor
              (map (\<lambda>r. map (\<lambda>(c, d). nan_to_num_f64 ops (div_f64 ops c d))
                            (zip r (map (sum_f64 ops) (transpose cm)))) cm)))
       \<and> (normalize_mode s = Some ''all'' \<longrightarrow>
            snd (result ops s) = Inr (DoubleTensor
              (map (map (\<lambda>c. nan_to_num_f64 ops (div_f64 ops c (sum_f64 ops (concat cm)))))
                 cm))))"
proof -
  have frame: "fst (result ops s) = s"
    by (simp add: result_def split: option.splits sum.splits)
  have none: "snd (result ops s) = Inr (LongTensor cm)"
    if "cm_tensor s = Some cm" and "normalize_mode s = None" for cm
    using that by (simp add: result_def)
  have true: "snd (result ops s) = Inr (DoubleTensor
      (map (\<lambda>r. map (\<lambda>c. nan_to_num_f64 ops (div_f64 ops c (sum_f64 ops r))) r) cm))"
    if "cm_tensor s = Some cm" and "normalize_mode s = Some ''true''" for cm
    using that by (simp add: result_def normalize_cm_def nan_to_num_def comp_def)
  have pred: "snd (result ops s) = Inr (DoubleTensor
      (map (\<lambda>r. map (\<lambda>(c, d). nan_to_num_f64 ops (div_f64 ops c d))
                    (zip r (map (sum_f64 ops) (transpose cm)))) cm))"
    if "cm_tensor s = Some cm" and "normalize_mode s = Some ''pred''" for cm
    using that
    by (simp add: result_def normalize_cm_def nan_to_num_def comp_def case_prod_unfold)
  have all: "snd (result ops s) = Inr (DoubleTensor
      (map (map (\<lambda>c. nan_to_num_f64 ops (div_f64 ops c (sum_f64 ops (concat cm))))) cm))"
    if "cm_tensor s = Some cm" and "normalize_mode s = Some ''all''" for cm
    using that by (simp add: result_def normalize_cm_def nan_to_num_def comp_def)
  show ?thesis using frame none true pred all by simp
qed

theorem result_pure_witness:
  "cm_tensor \<lparr>cm_tensor = Some [[1, 1], [0, 2]], num_classes = None,
               normalize_mode = Some ''true''\<rparr> = Some [[1, 1], [0, 2]]
   \<and> result exact_ops \<lparr>cm_tensor = Some [[1, 1], [0, 2]], num_classes = None,
               normalize_mode = Some ''true''\<rparr>
       = (\<lparr>cm_tensor = Some [[1, 1], [0, 2]], num_classes = None,
               normalize_mode = Some ''true''\<rparr>,
          Inr (DoubleTensor [[Finite (1 / 2), Finite (1 / 2)], [Finite 0, Finite 1]]))
   \<and> snd (result exact_ops (fst (result exact_ops \<lparr>cm_tensor = Some [[1, 1], [0, 2]],
               num_classes = None, normalize_mode = Some ''true''\<rparr>)))
       = Inr (DoubleTensor [[Finite (1 / 2), Finite (1 / 2)], [Finite 0, Finite 1]])"
proof -
  let ?s = "\<lparr>cm_tensor = Some [[1, 1], [0, 2]], num_classes = None,
               normalize_mode = Some ''true''\<rparr>"
  have a: "cm_tensor ?s = Some [[1, 1], [0, 2]]" by simp
  have m: "normalize_mode ?s = Some ''true''" by simp
  have v: "map (\<lambda>r. map (\<lambda>c. nan_to_num_f64 exact_ops
              (div_f64 exact_ops c (sum_f64 exact_ops r))) r) [[1, 1], [0, 2 :: int64]]
      = [[Finite (1 / 2), Finite (1 / 2)], [Finite 0, Finite 1]]"
    by code_simp
  from result_pure[of exact_ops ?s] a m v show ?thesis
    by (simp add: prod_eq_iff)
qed

lemma wf_state_init: "wf_state (init nc m)"
  by (simp add: wf_state_def init_def)

lemma wf_state_reset: "wf_state (reset s)"
  by (simp add: wf_state_def reset_def)

lemma cell_outside: "wf_state s \<Longrightarrow> dim s \<le> i \<or> dim s \<le> j \<Longrightarrow> cell s i j = 0"
  by (auto simp: cell_def dim_def wf_state_def square_def list_all_iff split: option.splits)

lemma dim_le_update:
  assumes "wf_state s" and "wf_tensor t" and "wf_tensor p"
  shows "dim s \<le> dim (fst (update s t p))"
proof (cases "validate s t p")
  case (Inl e)
  then show ?thesis by (simp add: update_validate_Inl)
next
  case (Inr r)
  obtain ml ts ps where "r = (ml, ts, ps)" by (cases r)
  with Inr have v: "validate s t p = Inr (ml, ts, ps)" by simp
  obtain cm r where "update s t p = (s\<lparr>cm_tensor := Some cm\<rparr>, r)"
    and "count_loop (mask_labels t) (mask_labels p) (allocate (cm_tensor s) ml) ts ps
           = (cm, case r of Inl e \<Rightarrow> Some e | Inr u \<Rightarrow> None)"
    and "square cm" and "length cm = max (dim s) (nat (ml + 1))"
    and "\<forall>i<length cm. \<forall>j<length cm.
           cm ! i ! j = cell s i j
             + of_nat (batch_count (mask_labels t) (mask_labels p) ts ps i j)"
    and "\<not> mask_labels t \<longrightarrow> r = Inr ()"
    by (rule update_valid[OF assms v])
  then show ?thesis by (simp add: dim_def)
qed

text \<open>
  Claim C8 (the table is square, never shrinks, and grows by zero-padding). A new
  object and a reset one have no table (\<open>wf_state_init\<close>, \<open>wf_state_reset\<close>). For a
  square table (or none yet) and rectangular inputs, the table after a call of
  \<open>update\<close>, failed or not, is square and no smaller. After a call that passes the
  checks, and so after every successful call, its dimension is the larger of the old
  one and \<open>max_label + 1\<close>, and every cell holds its old count, where a coordinate outside
  the old table counts \<open>0\<close> (\<open>cell_outside\<close>), plus, in the arithmetic of \<open>torch.long\<close>, the
  number of samples of this call that add 1 to it (\<open>hits\<close>): the old counts stay at their
  coordinates and the new rows and columns start from zero.
\<close>

theorem update_grows_table:
  assumes "wf_state s" and "wf_tensor t" and "wf_tensor p"
  shows "wf_state (fst (update s t p)) \<and> dim s \<le> dim (fst (update s t p))
    \<and> (snd (update s t p) = Inr () \<longrightarrow> (\<exists>ml ts ps. validate s t p = Inr (ml, ts, ps)))
    \<and> (\<forall>ml ts ps. validate s t p = Inr (ml, ts, ps) \<longrightarrow>
          dim (fst (update s t p)) = max (dim s) (nat (ml + 1))
          \<and> (\<forall>i<dim (fst (update s t p)). \<forall>j<dim (fst (update s t p)).
               cell (fst (update s t p)) i j
                 = cell s i j
                   + of_nat (batch_count (mask_labels t) (mask_labels p) ts ps i j)))"
proof -
  have c1: "wf_state (fst (update s t p))" using assms(1) by (rule update_wf_state)
  have c2: "dim s \<le> dim (fst (update s t p))" using assms by (rule dim_le_update)
  have c3: "snd (update s t p) = Inr () \<longrightarrow> (\<exists>ml ts ps. validate s t p = Inr (ml, ts, ps))"
  proof
    assume ok: "snd (update s t p) = Inr ()"
    then have "update s t p = (fst (update s t p), Inr ())" by (simp add: prod_eq_iff)
    then obtain ml ts ps where "validate s t p = Inr (ml, ts, ps)"
      by (rule update_Inr_cases)
    then show "\<exists>ml ts ps. validate s t p = Inr (ml, ts, ps)" by blast
  qed
  have c4: "dim (fst (update s t p)) = max (dim s) (nat (ml + 1))
          \<and> (\<forall>i<dim (fst (update s t p)). \<forall>j<dim (fst (update s t p)).
               cell (fst (update s t p)) i j
                 = cell s i j
                   + of_nat (batch_count (mask_labels t) (mask_labels p) ts ps i j))"
    if v: "validate s t p = Inr (ml, ts, ps)" for ml ts ps
  proof -
    obtain cm r where u: "update s t p = (s\<lparr>cm_tensor := Some cm\<rparr>, r)"
      and "count_loop (mask_labels t) (mask_labels p) (allocate (cm_tensor s) ml) ts ps
             = (cm, case r of Inl e \<Rightarrow> Some e | Inr u \<Rightarrow> None)"
      and sq: "square cm" and len: "length cm = max (dim s) (nat (ml + 1))"
      and cells: "\<forall>i<length cm. \<forall>j<length cm.
             cm ! i ! j = cell s i j
               + of_nat (batch_count (mask_labels t) (mask_labels p) ts ps i j)"
      and "\<not> mask_labels t \<longrightarrow> r = Inr ()"
      by (rule update_valid[OF assms v])
    have rows: "\<And>i. i < length cm \<Longrightarrow> length (cm ! i) = length cm"
      using sq by (simp add: square_def list_all_iff)
    have d: "dim (fst (update s t p)) = length cm" using u by (simp add: dim_def)
    have c: "cell (fst (update s t p)) i j = cm ! i ! j"
      if "i < length cm" and "j < length cm" for i j
      using u that rows by (simp add: cell_def)
    have "\<forall>i<dim (fst (update s t p)). \<forall>j<dim (fst (update s t p)).
        cell (fst (update s t p)) i j
          = cell s i j + of_nat (batch_count (mask_labels t) (mask_labels p) ts ps i j)"
      unfolding d using cells c by simp
    then show ?thesis using d len by simp
  qed
  show ?thesis using c1 c2 c3 c4 by blast
qed

theorem update_grows_table_witness:
  "wf_state \<lparr>cm_tensor = Some [[1, 0], [1, 1]], num_classes = None, normalize_mode = None\<rparr>
   \<and> wf_tensor (T1 Int64 [3] :: int tensor) \<and> wf_tensor (T2 2 [[1, 9 :: int]])
   \<and> update \<lparr>cm_tensor = Some [[1, 0], [1, 1]], num_classes = None, normalize_mode = None\<rparr>
        (T1 Int64 [3]) (T2 2 [[1, 9 :: int]])
       = (\<lparr>cm_tensor = Some [[1, 0, 0, 0], [1, 1, 0, 0], [0, 0, 0, 0], [0, 1, 0, 0]],
            num_classes = None, normalize_mode = None\<rparr>, Inr ())
   \<and> wf_state \<lparr>cm_tensor = Some [[1, 0, 0, 0], [1, 1, 0, 0], [0, 0, 0, 0], [0, 1, 0, 0]],
            num_classes = None, normalize_mode = None\<rparr>
   \<and> dim \<lparr>cm_tensor = Some [[1, 0], [1, 1]], num_classes = None, normalize_mode = None\<rparr>
       \<le> dim \<lparr>cm_tensor = Some [[1, 0, 0, 0], [1, 1, 0, 0], [0, 0, 0, 0], [0, 1, 0, 0]],
            num_classes = None, normalize_mode = None\<rparr>
   \<and> (\<exists>ml ts ps. validate \<lparr>cm_tensor = Some [[1, 0], [1, 1]], num_classes = None,
            normalize_mode = None\<rparr> (T1 Int64 [3]) (T2 2 [[1, 9 :: int]]) = Inr (ml, ts, ps))"
proof -
  let ?s = "\<lparr>cm_tensor = Some [[1, 0], [1, 1]], num_classes = None, normalize_mode = None\<rparr>"
  let ?t = "T1 Int64 [3] :: int tensor" and ?p = "T2 2 [[1, 9 :: int]]"
  have a: "wf_state ?s" by code_simp
  have b: "wf_tensor ?t" by simp
  have c: "wf_tensor ?p" by simp
  have u: "update ?s ?t ?p
       = (\<lparr>cm_tensor = Some [[1, 0, 0, 0], [1, 1, 0, 0], [0, 0, 0, 0], [0, 1, 0, 0]],
            num_classes = None, normalize_mode = None\<rparr>, Inr ())"
    by code_simp
  from update_grows_table[OF a b c] a b c u show ?thesis by simp
qed

text \<open>
  Claim C10 (the increments index inside the table). For a square table (or none yet)
  and rectangular inputs that pass the checks, the table the allocation step leaves is
  square, of dimension at least \<open>max_label + 1\<close>, and every label derived for the call,
  true or predicted, from direct labels or from an arg-max, is at least \<open>0\<close> and below
  that dimension. So where the true labels index as integers, that is for every element
  type but \<open>torch.uint8\<close> and \<open>torch.bool\<close>, the loop raises no index error and the call
  succeeds. (A true label that is a mask does not index the table: torch indexes a copy
  with the predicted label, and that can raise.)
\<close>

theorem update_in_bounds:
  assumes "wf_state s" and "wf_tensor t" and "wf_tensor p"
    and "validate s t p = Inr (ml, ts, ps)"
  shows "square (allocate (cm_tensor s) ml)
    \<and> ml + 1 \<le> int (length (allocate (cm_tensor s) ml))
    \<and> length ts = length ps
    \<and> (\<forall>i\<in>set ts. 0 \<le> i \<and> i + 1 \<le> int (length (allocate (cm_tensor s) ml)))
    \<and> (\<forall>j\<in>set ps. 0 \<le> j \<and> j + 1 \<le> int (length (allocate (cm_tensor s) ml)))
    \<and> (\<not> mask_labels t \<longrightarrow>
          snd (count_loop False (mask_labels p) (allocate (cm_tensor s) ml) ts ps) = None
          \<and> snd (update s t p) = Inr ())"
proof -
  let ?a = "allocate (cm_tensor s) ml"
  note b = validate_bounds[OF assms(4,2,3)]
  have sq0: "case cm_tensor s of None \<Rightarrow> True | Some cm \<Rightarrow> square cm"
    using assms(1) by (simp add: wf_state_def)
  note a = allocate_props[OF sq0 b(1)]
  have len: "ml + 1 \<le> int (length ?a)" using a(2) b(1) by simp
  obtain cm r where u: "update s t p = (s\<lparr>cm_tensor := Some cm\<rparr>, r)"
    and c: "count_loop (mask_labels t) (mask_labels p) ?a ts ps
           = (cm, case r of Inl e \<Rightarrow> Some e | Inr u \<Rightarrow> None)"
    and "square cm" and "length cm = max (dim s) (nat (ml + 1))"
    and "\<forall>i<length cm. \<forall>j<length cm.
           cm ! i ! j = cell s i j
             + of_nat (batch_count (mask_labels t) (mask_labels p) ts ps i j)"
    and ok: "\<not> mask_labels t \<longrightarrow> r = Inr ()"
    by (rule update_valid[OF assms])
  have t: "\<forall>i\<in>set ts. 0 \<le> i \<and> i + 1 \<le> int (length ?a)"
  proof
    fix i assume "i \<in> set ts"
    with b(2) have "0 \<le> i" and "i \<le> ml" by auto
    with len show "0 \<le> i \<and> i + 1 \<le> int (length ?a)" by simp
  qed
  have p: "\<forall>j\<in>set ps. 0 \<le> j \<and> j + 1 \<le> int (length ?a)"
  proof
    fix j assume "j \<in> set ps"
    with b(3) have "0 \<le> j" and "j \<le> ml" by auto
    with len show "0 \<le> j \<and> j + 1 \<le> int (length ?a)" by simp
  qed
  have r: "\<not> mask_labels t \<longrightarrow>
          snd (count_loop False (mask_labels p) ?a ts ps) = None
          \<and> snd (update s t p) = Inr ()"
  proof
    assume m: "\<not> mask_labels t"
    from ok m u c show "snd (count_loop False (mask_labels p) ?a ts ps) = None
          \<and> snd (update s t p) = Inr ()" by simp
  qed
  show ?thesis using a(1) len b(4) t p r by blast
qed

theorem update_in_bounds_witness:
  "wf_state \<lparr>cm_tensor = Some [[1, 0], [1, 1]], num_classes = None, normalize_mode = None\<rparr>
   \<and> wf_tensor (T1 Int64 [3] :: int tensor) \<and> wf_tensor (T2 2 [[1, 9 :: int]])
   \<and> validate \<lparr>cm_tensor = Some [[1, 0], [1, 1]], num_classes = None, normalize_mode = None\<rparr>
        (T1 Int64 [3]) (T2 2 [[1, 9 :: int]]) = Inr (3, [3], [1])
   \<and> allocate (Some [[1, 0], [1, 1]]) 3 = [[1, 0, 0, 0], [1, 1, 0, 0], [0, 0, 0, 0], [0, 0, 0, 0]]
   \<and> snd (count_loop False False (allocate (Some [[1, 0], [1, 1]]) 3) [3] [1]) = None
   \<and> snd (update \<lparr>cm_tensor = Some [[1, 0], [1, 1]], num_classes = None, normalize_mode = None\<rparr>
        (T1 Int64 [3]) (T2 2 [[1, 9 :: int]])) = Inr ()"
proof -
  let ?s = "\<lparr>cm_tensor = Some [[1, 0], [1, 1]], num_classes = None, normalize_mode = None\<rparr>"
  let ?t = "T1 Int64 [3] :: int tensor" and ?p = "T2 2 [[1, 9 :: int]]"
  have a: "wf_state ?s" by code_simp
  have b: "wf_tensor ?t" by simp
  have c: "wf_tensor ?p" by simp
  have v: "validate ?s ?t ?p = Inr (3, [3], [1])" by code_simp
  have al: "allocate (Some [[1, 0], [1, 1]]) 3 = [[1, 0, 0, 0], [1, 1, 0, 0], [0, 0, 0, 0], [0, 0, 0, 0]]"
    by code_simp
  have m: "\<not> mask_labels ?t" "\<not> mask_labels ?p" by (simp_all add: is_mask_def)
  from update_in_bounds[OF a b c v] a b c v al m show ?thesis by simp
qed

subsection \<open>Normalization and the rounding of \<open>float64\<close>\<close>


lemma sum_list_nonneg_le:
  fixes xs :: "int list"
  shows "\<forall>x\<in>set xs. 0 \<le> x \<Longrightarrow> y \<in> set xs \<Longrightarrow> y \<le> sum_list xs"
proof (induction xs)
  case Nil
  then show ?case by simp
next
  case (Cons x xs)
  have "0 \<le> sum_list xs" using Cons.prems(1) by (simp add: sum_list_nonneg)
  show ?case
  proof (cases "y = x")
    case True
    with \<open>0 \<le> sum_list xs\<close> show ?thesis by simp
  next
    case False
    with Cons.prems have "y \<in> set xs" by simp
    with Cons have "y \<le> sum_list xs" by simp
    moreover have "0 \<le> x" using Cons.prems(1) by simp
    ultimately show ?thesis by simp
  qed
qed

lemma sum_list_nonneg_zero:
  fixes xs :: "int list"
  shows "\<forall>x\<in>set xs. 0 \<le> x \<Longrightarrow> sum_list xs = 0 \<Longrightarrow> y \<in> set xs \<Longrightarrow> y = 0"
  using sum_list_nonneg_le[of xs y] by fastforce

lemma result_true_entries:
  assumes "cm_tensor s = Some cm" and "normalize_mode s = Some ''true''"
  shows "result (ops_of conv) s = (s, Inr (DoubleTensor (map (\<lambda>r. map (entry conv r) r) cm)))"
  using assms
  by (simp add: result_def normalize_cm_def nan_to_num_def ops_of_def entry_def row_sum_def comp_def)


lemma sum_list_quotients:
  fixes S :: rat
  shows "sum_list (map (\<lambda>c. of_int (sint c) / S) r) = of_int (row_sum r) / S"
  by (induction r) (simp_all add: row_sum_def add_divide_distrib)

text \<open>
  A row of counts, none negative, with a sum below \<open>2 ^ 53\<close>, under a rounding that is
  exact on the integers below \<open>2 ^ 53\<close> and has the relative error \<open>eps\<close> on the quotients
  of such integers.
\<close>

lemma entry_zero_row:
  assumes "\<forall>c\<in>set r. 0 \<le> sint c" and "row_sum r = 0"
    and "\<forall>n. 0 \<le> n \<longrightarrow> n < 2 ^ 53 \<longrightarrow> conv (of_int n) = Finite (of_int n)"
  shows "map (entry conv r) r = replicate (length r) (Finite 0)"
proof -
  have z: "conv 0 = Finite 0" using assms(3)[rule_format, of 0] by simp
  have "entry conv r c = Finite 0" if "c \<in> set r" for c
  proof -
    have "sint c = 0"
      using sum_list_nonneg_zero[of "map sint r" "sint c"] assms(1,2) that
      by (auto simp: row_sum_def)
    then show ?thesis using assms(2) z by (simp add: entry_def f64_nan_to_num_def)
  qed
  then show ?thesis by (simp add: map_replicate_const[symmetric] del: map_replicate_const cong: map_cong)
qed

lemma entry_rounded:
  assumes "\<forall>c\<in>set r. 0 \<le> sint c" and "0 < row_sum r" and "row_sum r < 2 ^ 53"
    and "\<forall>n. 0 \<le> n \<longrightarrow> n < 2 ^ 53 \<longrightarrow> conv (of_int n) = Finite (of_int n)"
    and "\<forall>c n. 0 < c \<longrightarrow> c \<le> n \<longrightarrow> n < 2 ^ 53 \<longrightarrow>
           (\<exists>v. conv (of_int c / of_int n) = Finite v
              \<and> \<bar>v - of_int c / of_int n\<bar> \<le> eps * (of_int c / of_int n))"
    and "c \<in> set r"
  shows "entry conv r c = Finite (f64_val (entry conv r c))
    \<and> \<bar>f64_val (entry conv r c) - of_int (sint c) / of_int (row_sum r)\<bar>
        \<le> eps * (of_int (sint c) / of_int (row_sum r))"
proof -
  let ?S = "row_sum r"
  have c0: "0 \<le> sint c" using assms(1,6) by simp
  have cS: "sint c \<le> ?S"
    using sum_list_nonneg_le[of "map sint r" "sint c"] assms(1,6) by (auto simp: row_sum_def)
  have z: "conv 0 = Finite 0" using assms(4)[rule_format, of 0] by simp
  have cs: "conv (of_int ?S) = Finite (of_int ?S)" using assms(2,3,4) by simp
  have cc: "conv (of_int (sint c)) = Finite (of_int (sint c))"
    using assms(4)[rule_format, of "sint c"] assms(3) c0 cS by simp
  have e: "entry conv r c = f64_nan_to_num (conv (of_int (sint c) / of_int ?S))"
    using cs cc assms(2) by (simp add: entry_def)
  show ?thesis
  proof (cases "sint c = 0")
    case True
    then show ?thesis using e z by (simp add: f64_nan_to_num_def)
  next
    case False
    with c0 have "0 < sint c" by simp
    with assms(5) cS assms(3) obtain v
      where v: "conv (of_int (sint c) / of_int ?S) = Finite v"
        and b: "\<bar>v - of_int (sint c) / of_int ?S\<bar> \<le> eps * (of_int (sint c) / of_int ?S)"
      by blast
    then show ?thesis using e by (simp add: f64_nan_to_num_def)
  qed
qed

lemma row_sum_rounded:
  assumes "\<forall>c\<in>set r. 0 \<le> sint c" and "0 < row_sum r" and "row_sum r < 2 ^ 53"
    and "\<forall>n. 0 \<le> n \<longrightarrow> n < 2 ^ 53 \<longrightarrow> conv (of_int n) = Finite (of_int n)"
    and "\<forall>c n. 0 < c \<longrightarrow> c \<le> n \<longrightarrow> n < 2 ^ 53 \<longrightarrow>
           (\<exists>v. conv (of_int c / of_int n) = Finite v
              \<and> \<bar>v - of_int c / of_int n\<bar> \<le> eps * (of_int c / of_int n))"
  shows "\<bar>sum_list (map (\<lambda>c. f64_val (entry conv r c)) r) - 1\<bar> \<le> eps"
proof -
  let ?S = "of_int (row_sum r) :: rat"
  let ?v = "\<lambda>c. f64_val (entry conv r c)" and ?q = "\<lambda>c. of_int (sint c) / ?S"
  have S: "0 < ?S" using assms(2) by simp
  have "sum_list (map ?q r) = ?S / ?S" by (rule sum_list_quotients)
  then have one: "sum_list (map ?q r) = 1" using S by simp
  have "sum_list (map ?v r) - 1 = sum_list (map ?v r) - sum_list (map ?q r)"
    using one by simp
  also have "\<dots> = sum_list (map (\<lambda>c. ?v c - ?q c) r)"
    by (simp add: sum_list_subtractf)
  finally have "\<bar>sum_list (map ?v r) - 1\<bar> = \<bar>sum_list (map (\<lambda>c. ?v c - ?q c) r)\<bar>"
    by simp
  also have "\<dots> \<le> sum_list (map (\<lambda>c. \<bar>?v c - ?q c\<bar>) r)"
    using sum_list_abs[of "map (\<lambda>c. ?v c - ?q c) r"] by (simp add: comp_def)
  also have "\<dots> \<le> sum_list (map (\<lambda>c. eps * ?q c) r)"
  proof (rule sum_list_mono)
    fix c assume "c \<in> set r"
    from entry_rounded[OF assms this] show "\<bar>?v c - ?q c\<bar> \<le> eps * ?q c" by simp
  qed
  also have "\<dots> = eps * sum_list (map ?q r)" by (rule sum_list_const_mult)
  also have "\<dots> = eps" using one by simp
  finally show ?thesis .
qed


lemma round_even_error: "\<bar>of_int (round_even x) - x\<bar> \<le> 1 / 2"
proof -
  have "of_int \<lfloor>x\<rfloor> \<le> x" and "x < of_int \<lfloor>x\<rfloor> + 1" by linarith+
  then show ?thesis by (auto simp: round_even_def Let_def abs_le_iff)
qed

lemma round_even_of_int: "round_even (of_int n) = n"
  by (simp add: round_even_def)

lemma scale_up_ge:
  "(1 / 2) ^ n \<le> q \<Longrightarrow> q < 1 \<Longrightarrow> 1 \<le> q * 2 ^ scale_up n q"
proof (induction n arbitrary: q)
  case 0
  then show ?case by simp
next
  case (Suc n)
  show ?case
  proof (cases "2 * q < 1")
    case True
    have "(1 / 2) ^ n \<le> 2 * q" using Suc.prems(1) by simp
    from Suc.IH[OF this True] Suc.prems(2) show ?thesis by (simp add: mult.assoc)
  next
    case False
    then have "scale_up n (2 * q) = 0" by (cases n) simp_all
    with False Suc.prems(2) show ?thesis by simp
  qed
qed

lemma scale_down_le: "q < 2 ^ Suc m \<Longrightarrow> scale_down f q \<le> m"
proof (induction f arbitrary: q m)
  case 0
  then show ?case by simp
next
  case (Suc f)
  show ?case
  proof (cases "2 \<le> q")
    case False
    then show ?thesis by simp
  next
    case True
    with Suc.prems obtain m' where m: "m = Suc m'" by (cases m) auto
    have "q / 2 < 2 ^ Suc m'" using Suc.prems m by simp
    from Suc.IH[OF this] True m show ?thesis by simp
  qed
qed

lemma round64_pos_of_int:
  assumes "1 \<le> n" and "n < 2 ^ 53"
  shows "round64_pos (of_int n) = of_int n"
proof -
  define j where "j = scale_down 1024 (of_int n :: rat)"
  have "n < 2 ^ Suc 52" using assms(2) by simp
  then have "(of_int n :: rat) < of_int (2 ^ Suc 52)" by (simp only: of_int_less_iff)
  then have "(of_int n :: rat) < 2 ^ Suc 52" by simp
  then have j: "j \<le> 52" unfolding j_def by (rule scale_down_le)
  have n1: "\<not> (of_int n :: rat) < 1" using assms(1) by simp
  have "(of_int n :: rat) * 2 ^ (52 - j) = of_int (n * 2 ^ (52 - j))" by simp
  then have e: "round_even (of_int n * 2 ^ (52 - j)) = n * 2 ^ (52 - j)"
    by (simp only: round_even_of_int)
  have "round64_pos (of_int n)
      = of_int (round_even (of_int n * 2 ^ (52 - j))) / 2 ^ (52 - j)"
    unfolding round64_pos_def Let_def j_def[symmetric] if_not_P[OF n1] if_P[OF j] ..
  also have "\<dots> = of_int n" unfolding e by simp
  finally show ?thesis .
qed

lemma f64_of_rat_of_int:
  assumes "0 \<le> n" and "n < 2 ^ 53"
  shows "f64_of_rat (of_int n) = Finite (of_int n)"
proof (cases "n = 0")
  case True
  then show ?thesis by (simp add: f64_of_rat_def)
next
  case False
  with assms have n: "1 \<le> n" by simp
  have a: "\<bar>of_int n :: rat\<bar> = of_int n" using assms(1) by simp
  have r: "round64_pos \<bar>of_int n\<bar> = of_int n"
    unfolding a using n assms(2) by (rule round64_pos_of_int)
  have "n < 2 ^ 1024"
  proof -
    have "(2 :: int) ^ 53 \<le> 2 ^ 1024" by (rule power_increasing) simp_all
    with assms(2) show ?thesis by linarith
  qed
  then have "(of_int n :: rat) < of_int (2 ^ 1024)" by (simp only: of_int_less_iff)
  then have big: "\<not> (2 :: rat) ^ 1024 \<le> of_int n" by simp
  have nz: "(of_int n :: rat) \<noteq> 0" and pos: "(0 :: rat) < of_int n" using n by simp_all
  show ?thesis
    unfolding f64_of_rat_def Let_def r if_not_P[OF nz] if_not_P[OF big] if_P[OF pos] ..
qed


lemma round64_pos_small:
  assumes "(1 / 2) ^ 1022 \<le> q" and "q < 1"
  shows "\<bar>round64_pos q - q\<bar> \<le> q / 2 ^ 53"
proof -
  define m where "m = scale_up 1022 q"
  define k where "k = 52 + m"
  have q0: "0 < q"
  proof -
    have "(0 :: rat) < (1 / 2) ^ 1022" by (rule zero_less_power) simp
    with assms(1) show ?thesis by linarith
  qed
  have ge: "1 \<le> q * 2 ^ m" unfolding m_def using assms by (rule scale_up_ge)
  have r: "round64_pos q = of_int (round_even (q * 2 ^ k)) / 2 ^ k"
    unfolding round64_pos_def Let_def m_def[symmetric] k_def[symmetric] if_P[OF assms(2)] ..
  have p: "(0 :: rat) < 2 ^ k" by simp
  have "round64_pos q - q = (of_int (round_even (q * 2 ^ k)) - q * 2 ^ k) / 2 ^ k"
    unfolding r by (simp add: diff_divide_distrib)
  then have "\<bar>round64_pos q - q\<bar> = \<bar>of_int (round_even (q * 2 ^ k)) - q * 2 ^ k\<bar> / 2 ^ k"
    using p by (simp add: abs_divide)
  also have "\<dots> \<le> (1 / 2) / 2 ^ k"
    by (rule divide_right_mono[OF round_even_error]) simp
  also have "\<dots> = (1 / 2 ^ m) / 2 ^ 53" by (simp add: k_def power_add)
  also have "\<dots> \<le> q / 2 ^ 53"
  proof -
    have "1 / 2 ^ m \<le> q" using ge by (simp add: field_simps)
    then show ?thesis by (simp add: divide_right_mono)
  qed
  finally show ?thesis .
qed

lemma f64_of_rat_quotient:
  assumes "0 < c" and "c \<le> n" and "n < 2 ^ 53"
  shows "\<exists>v. f64_of_rat (of_int c / of_int n) = Finite v
    \<and> \<bar>v - of_int c / of_int n\<bar> \<le> (1 / 2 ^ 53) * (of_int c / of_int n)"
proof (cases "c = n")
  case True
  with assms(1) have "(of_int c / of_int n :: rat) = of_int 1" by simp
  moreover have "f64_of_rat (of_int 1) = Finite (of_int 1)"
    by (rule f64_of_rat_of_int) simp_all
  ultimately show ?thesis by simp
next
  case False
  define q :: rat where "q = of_int c / of_int n"
  have n0: "(0 :: rat) < of_int n" using assms(1,2) by simp
  have q0: "0 < q" using assms(1) n0 by (simp add: q_def)
  have q1: "q < 1" using False assms(2) n0 by (simp add: q_def)
  have lo: "(1 / 2) ^ 1022 \<le> q"
  proof -
    have "(of_int n :: rat) \<le> of_int (2 ^ 53)" using assms(3) by (simp only: of_int_le_iff)
    then have "(of_int n :: rat) \<le> 2 ^ 53" by simp
    also have "\<dots> \<le> 2 ^ 1022" by (rule power_increasing) simp_all
    finally have "1 / (2 :: rat) ^ 1022 \<le> 1 / of_int n" using n0 by (simp add: frac_le)
    also have "\<dots> \<le> of_int c / of_int n"
    proof -
      have "(1 :: rat) \<le> of_int c" using assms(1) by simp
      then show ?thesis using n0 by (simp add: divide_right_mono)
    qed
    finally show ?thesis by (simp add: q_def power_divide)
  qed
  note e = round64_pos_small[OF lo q1]
  define v where "v = round64_pos q"
  have "v - q \<le> \<bar>v - q\<bar>" by simp
  also have "\<dots> \<le> q / 2 ^ 53" using e by (simp only: v_def)
  finally have "v \<le> q + q / 2 ^ 53" by simp
  also have "\<dots> \<le> q + q" using q0 by (simp add: divide_le_eq)
  also have "\<dots> < 2" using q1 by simp
  also have "(2 :: rat) \<le> 2 ^ 1024" using power_increasing[of 1 1024 "2 :: rat"] by simp
  finally have big: "\<not> 2 ^ 1024 \<le> v" by simp
  have a: "\<bar>q\<bar> = q" using q0 by simp
  have nz: "q \<noteq> 0" using q0 by simp
  have "f64_of_rat q = Finite v"
    unfolding f64_of_rat_def Let_def a v_def[symmetric] if_not_P[OF nz] if_not_P[OF big] if_P[OF q0] ..
  moreover have "\<bar>v - q\<bar> \<le> (1 / 2 ^ 53) * q" using e by (simp add: v_def)
  ultimately show ?thesis unfolding q_def by blast
qed


text \<open>
  Claim C9 (the mode \<open>'true'\<close>). For a table of counts, none negative and each row with
  a sum below \<open>2 ^ 53\<close>, \<open>result\<close> returns, for each count, the count divided by the sum
  of its row and passed through \<open>nan_to_num\<close> (\<open>entry\<close>). A row without observation
  comes back all zero: its quotients are \<open>0/0\<close>, not-a-number, which \<open>nan_to_num\<close>
  replaces with zero. In a row with an observation every entry is finite, within the
  relative error \<open>eps\<close> of the rounding from the exact quotient, and the entries sum to 1
  within \<open>eps\<close>: to 1 exactly when the quotients are exact (\<open>eps = 0\<close>), and within
  \<open>2 ^ - 53\<close> for \<open>float64\<close> (\<open>f64_of_rat_of_int\<close>, \<open>f64_of_rat_quotient\<close>; the
  witness), which is the floating tolerance of the specification.
\<close>

theorem result_true_rows:
  assumes "cm_tensor s = Some cm" and "normalize_mode s = Some ''true''"
    and "\<forall>r\<in>set cm. (\<forall>c\<in>set r. 0 \<le> sint c) \<and> row_sum r < 2 ^ 53"
    and "\<forall>n. 0 \<le> n \<longrightarrow> n < 2 ^ 53 \<longrightarrow> conv (of_int n) = Finite (of_int n)"
    and "\<forall>c n. 0 < c \<longrightarrow> c \<le> n \<longrightarrow> n < 2 ^ 53 \<longrightarrow>
           (\<exists>v. conv (of_int c / of_int n) = Finite v
              \<and> \<bar>v - of_int c / of_int n\<bar> \<le> eps * (of_int c / of_int n))"
  shows "result (ops_of conv) s = (s, Inr (DoubleTensor (map (\<lambda>r. map (entry conv r) r) cm)))
    \<and> (\<forall>r\<in>set cm.
          (row_sum r = 0 \<longrightarrow> map (entry conv r) r = replicate (length r) (Finite 0))
        \<and> (0 < row_sum r \<longrightarrow>
              (\<forall>c\<in>set r. entry conv r c = Finite (f64_val (entry conv r c))
                 \<and> \<bar>f64_val (entry conv r c) - of_int (sint c) / of_int (row_sum r)\<bar>
                     \<le> eps * (of_int (sint c) / of_int (row_sum r)))
            \<and> \<bar>sum_list (map (\<lambda>c. f64_val (entry conv r c)) r) - 1\<bar> \<le> eps))"
proof -
  have res: "result (ops_of conv) s
      = (s, Inr (DoubleTensor (map (\<lambda>r. map (entry conv r) r) cm)))"
    using assms(1,2) by (rule result_true_entries)
  have rows: "(row_sum r = 0 \<longrightarrow> map (entry conv r) r = replicate (length r) (Finite 0))
        \<and> (0 < row_sum r \<longrightarrow>
              (\<forall>c\<in>set r. entry conv r c = Finite (f64_val (entry conv r c))
                 \<and> \<bar>f64_val (entry conv r c) - of_int (sint c) / of_int (row_sum r)\<bar>
                     \<le> eps * (of_int (sint c) / of_int (row_sum r)))
            \<and> \<bar>sum_list (map (\<lambda>c. f64_val (entry conv r c)) r) - 1\<bar> \<le> eps)"
    if r: "r \<in> set cm" for r
  proof -
    from assms(3) r have nn: "\<forall>c\<in>set r. 0 \<le> sint c" and lt: "row_sum r < 2 ^ 53" by auto
    have z: "map (entry conv r) r = replicate (length r) (Finite 0)" if "row_sum r = 0"
      using nn that assms(4) by (rule entry_zero_row)
    have e: "\<forall>c\<in>set r. entry conv r c = Finite (f64_val (entry conv r c))
                 \<and> \<bar>f64_val (entry conv r c) - of_int (sint c) / of_int (row_sum r)\<bar>
                     \<le> eps * (of_int (sint c) / of_int (row_sum r))"
      if "0 < row_sum r"
    proof
      fix c assume "c \<in> set r"
      from entry_rounded[OF nn that lt assms(4,5) this]
      show "entry conv r c = Finite (f64_val (entry conv r c))
                 \<and> \<bar>f64_val (entry conv r c) - of_int (sint c) / of_int (row_sum r)\<bar>
                     \<le> eps * (of_int (sint c) / of_int (row_sum r))" .
    qed
    have t: "\<bar>sum_list (map (\<lambda>c. f64_val (entry conv r c)) r) - 1\<bar> \<le> eps" if "0 < row_sum r"
      using nn that lt assms(4,5) by (rule row_sum_rounded)
    show ?thesis using z e t by blast
  qed
  show ?thesis using res rows by blast
qed

theorem result_true_rows_witness:
  "cm_tensor \<lparr>cm_tensor = Some [[1, 2], [0, 0]], num_classes = None,
               normalize_mode = Some ''true''\<rparr> = Some [[1, 2], [0, 0]]
   \<and> normalize_mode \<lparr>cm_tensor = Some [[1, 2], [0, 0]], num_classes = None,
               normalize_mode = Some ''true''\<rparr> = Some ''true''
   \<and> row_sum [1, 2] = 3 \<and> row_sum [0, 0] = 0
   \<and> result ieee_ops \<lparr>cm_tensor = Some [[1, 2], [0, 0]], num_classes = None,
               normalize_mode = Some ''true''\<rparr>
       = (\<lparr>cm_tensor = Some [[1, 2], [0, 0]], num_classes = None,
               normalize_mode = Some ''true''\<rparr>,
          Inr (DoubleTensor [[entry f64_of_rat [1, 2] 1, entry f64_of_rat [1, 2] 2],
                             [Finite 0, Finite 0]]))
   \<and> \<bar>f64_val (entry f64_of_rat [1, 2] 1) + f64_val (entry f64_of_rat [1, 2] 2) - 1\<bar>
       \<le> 1 / 2 ^ 53"
proof -
  let ?s = "\<lparr>cm_tensor = Some [[1, 2], [0, 0 :: int64]], num_classes = None,
               normalize_mode = Some ''true''\<rparr>"
  have a: "cm_tensor ?s = Some [[1, 2], [0, 0]]" by simp
  have m: "normalize_mode ?s = Some ''true''" by simp
  have r1: "row_sum [1, 2] = 3" and r2: "row_sum [0, 0] = 0" by (simp_all add: row_sum_def)
  have h: "\<forall>r\<in>set [[1, 2], [0, 0 :: int64]]. (\<forall>c\<in>set r. 0 \<le> sint c) \<and> row_sum r < 2 ^ 53"
    by (simp add: row_sum_def)
  have ex: "\<forall>n. 0 \<le> n \<longrightarrow> n < 2 ^ 53 \<longrightarrow> f64_of_rat (of_int n) = Finite (of_int n)"
    using f64_of_rat_of_int by blast
  have ro: "\<forall>c n. 0 < c \<longrightarrow> c \<le> n \<longrightarrow> n < 2 ^ 53 \<longrightarrow>
           (\<exists>v. f64_of_rat (of_int c / of_int n) = Finite v
              \<and> \<bar>v - of_int c / of_int n\<bar> \<le> (1 / 2 ^ 53) * (of_int c / of_int n))"
    using f64_of_rat_quotient by blast
  note t = result_true_rows[OF a m h ex ro]
  from t have res: "result (ops_of f64_of_rat) ?s
      = (?s, Inr (DoubleTensor (map (\<lambda>r. map (entry f64_of_rat r) r) [[1, 2], [0, 0]])))"
    by blast
  from t r2 have z: "map (entry f64_of_rat [0, 0]) [0, 0] = replicate (length [0, 0 :: int64]) (Finite 0)"
    by simp
  from t r1 have b: "\<bar>sum_list (map (\<lambda>c. f64_val (entry f64_of_rat [1, 2] c)) [1, 2]) - 1\<bar>
      \<le> 1 / 2 ^ 53"
    by simp
  from z have z': "[entry f64_of_rat [0, 0] 0, entry f64_of_rat [0, 0] 0] = [Finite 0, Finite 0]"
    by (simp add: numeral_2_eq_2)
  show ?thesis using a m r1 r2 res z' b by (simp add: ieee_ops_def)
qed

subsection \<open>The converse of C7: labels in range are accepted\<close>

text \<open>
  Labels in range are accepted: on a square table (or none yet), a call with two
  tensors of direct labels, not empty and of one length, all at least \<open>0\<close> and, under a
  fixed \<open>num_classes\<close>, below it, succeeds when the true labels index as integers.
\<close>

lemma update_direct_succeeds:
  assumes "wf_state s" and "ts \<noteq> []" and "length ts = length ps"
    and "\<forall>x\<in>set ts \<union> set ps. 0 \<le> x"
    and "\<And>n. num_classes s = Some n \<Longrightarrow> \<forall>x\<in>set ts \<union> set ps. x < n"
    and "\<not> is_mask dt"
  shows "snd (update s (T1 dt ts) (T1 dp ps :: 'a::linorder tensor)) = Inr ()"
proof -
  from assms(2,3) have ne: "ts \<noteq> []" "ps \<noteq> []" by auto
  have ge: "0 \<le> x" if "x \<in> set ts \<or> x \<in> set ps" for x
    using assms(4) that by blast
  have nt: "\<not> list_ex (\<lambda>y. y < 0) ts" and np: "\<not> list_ex (\<lambda>y. y < 0) ps"
    using ge by (force simp: list_ex_iff)+
  have "\<exists>ml. validate s (T1 dt ts :: 'a tensor) (T1 dp ps) = Inr (ml, ts, ps)"
  proof (cases "num_classes s")
    case None
    from ne(1) obtain x where "x \<in> set ts" by (cases ts) auto
    then have "0 \<le> x" and "x \<le> Max (set ts)" using ge by simp_all
    then have "0 \<le> Max (set ts)" by simp
    then have "\<not> max (max (- 1) (Max (set ps))) (Max (set ts)) < 0" by simp
    with None ne nt np assms(3) show ?thesis
      by (simp add: validate_def select_valid_T1 to_labels_T1_eq initial_max_label_def
          del: to_labels.simps)
  next
    case (Some n)
    have less: "x < n" if "x \<in> set ts \<or> x \<in> set ps" for x
      using assms(5)[OF Some] that by blast
    have lt: "\<not> list_ex (\<lambda>y. n \<le> y) ts" and lp: "\<not> list_ex (\<lambda>y. n \<le> y) ps"
      using less by (force simp: list_ex_iff)+
    from ne(1) obtain x where "x \<in> set ts" by (cases ts) auto
    then have "0 \<le> x" and "x < n" using ge less by simp_all
    then have "\<not> n - 1 < 0" by simp
    with Some ne nt np lt lp assms(3) show ?thesis
      by (simp add: validate_def select_valid_T1 to_labels_T1_eq initial_max_label_def
          del: to_labels.simps)
  qed
  then obtain ml where v: "validate s (T1 dt ts :: 'a tensor) (T1 dp ps) = Inr (ml, ts, ps)" ..
  have "update s (T1 dt ts :: 'a tensor) (T1 dp ps)
      = (s\<lparr>cm_tensor := Some (fst (count_loop False (is_mask dp)
            (allocate (cm_tensor s) ml) ts ps))\<rparr>,
         case snd (count_loop False (is_mask dp) (allocate (cm_tensor s) ml) ts ps) of
           None \<Rightarrow> Inr () | Some e \<Rightarrow> Inl e)"
    using v assms(6) by (simp add: update_def split: prod.splits)
  moreover have "snd (count_loop False (is_mask dp) (allocate (cm_tensor s) ml) ts ps) = None"
  proof -
    have sq0: "case cm_tensor s of None \<Rightarrow> True | Some cm \<Rightarrow> square cm"
      using assms(1) by (simp add: wf_state_def)
    from v have ml: "0 \<le> ml" by (auto elim: validate_Inr)
    note a = allocate_props[OF sq0 ml]
    have len: "ml + 1 \<le> int (length (allocate (cm_tensor s) ml))" using a(2) ml by simp
    have bound: "x \<le> ml" if "x \<in> set ts \<or> x \<in> set ps" for x
    proof (cases "num_classes s")
      case None
      from v None ne nt np assms(3) have "ml = max (max (- 1) (Max (set ps))) (Max (set ts))"
        by (simp add: validate_def select_valid_T1 to_labels_T1_eq initial_max_label_def
            split: if_splits del: to_labels.simps)
      moreover have "x \<le> Max (set ps) \<or> x \<le> Max (set ts)" using that by auto
      ultimately show ?thesis by auto
    next
      case (Some n)
      have less': "y < n" if "y \<in> set ts \<or> y \<in> set ps" for y
        using assms(5)[OF Some] that by blast
      have lt: "\<not> list_ex (\<lambda>y. n \<le> y) ts" and lp: "\<not> list_ex (\<lambda>y. n \<le> y) ps"
        using less' by (force simp: list_ex_iff)+
      from v Some ne nt np lt lp assms(3) have "ml = n - 1"
        by (simp add: validate_def select_valid_T1 to_labels_T1_eq initial_max_label_def
            split: if_splits del: to_labels.simps)
      moreover have "x < n" using assms(5)[OF Some] that by blast
      ultimately show ?thesis by simp
    qed
    have tb: "\<forall>t\<in>set ts. 0 \<le> t \<and> t < int (length (allocate (cm_tensor s) ml))"
      using ge bound len by fastforce
    have pb: "\<forall>p\<in>set ps. 0 \<le> p \<and> p < int (length (allocate (cm_tensor s) ml))"
      using ge bound len by fastforce
    from count_loop_cells[OF assms(3) a(1) tb, of "is_mask dp"] pb
    show ?thesis by auto
  qed
  ultimately show ?thesis by simp
qed

end
